theory Spec2Isabelle
  imports Main
begin

section \<open>The line-addressed editor \<open>edit_file.py\<close>\<close>

text \<open>
  The development embeds \<^verbatim>\<open>planning-with-files/edit_file.py\<close>: a command-line
  tool that shows, replaces, inserts, appends or deletes lines of one text file.

  Conventions of the embedding.
  \<^item> A Python \<open>str\<close> is a \<open>string\<close>; the text of arguments and files is taken to be
    ASCII, so that a character is a byte and no encoding error arises.
  \<^item> The system is POSIX. A file opened for reading is read with universal newlines
    (\<open>"\r\n"\<close> and a lone \<open>"\r"\<close> arrive as \<open>"\n"\<close>); text written to a file, standard
    input and standard output are not translated.
  \<^item> Python's unbounded \<open>int\<close> is \<open>int\<close>; list positions are \<open>nat\<close>.
  \<^item> An exception is a value of \<open>py_error\<close>; a computation that may raise returns
    \<open>py_error + 'a\<close>.
  \<^item> The file system, standard input and the file-size limit of the process are fields of
    the record \<open>world\<close>, passed through every effectful function. Every file of the
    file system is a regular file that the process may read and write.
\<close>

subsection \<open>Python list slicing\<close>

text \<open>
  \<^verbatim>\<open>xs[a:b]\<close>: a negative bound counts from the end, and every bound is clamped to
  \<open>0..len(xs)\<close>.
\<close>

definition clamp_index :: "nat \<Rightarrow> int \<Rightarrow> nat" where
  "clamp_index n i = (if i < 0 then nat (int n + i) else min n (nat i))"

text \<open>\<^verbatim>\<open>xs[:b]\<close>\<close>

definition slice_to :: "'a list \<Rightarrow> int \<Rightarrow> 'a list" where
  "slice_to xs b = take (clamp_index (length xs) b) xs"

text \<open>\<^verbatim>\<open>xs[a:]\<close>\<close>

definition slice_from :: "'a list \<Rightarrow> int \<Rightarrow> 'a list" where
  "slice_from xs a = drop (clamp_index (length xs) a) xs"

text \<open>\<^verbatim>\<open>xs[a:b]\<close>\<close>

definition slice :: "'a list \<Rightarrow> int \<Rightarrow> int \<Rightarrow> 'a list" where
  "slice xs a b =
     (let lo = clamp_index (length xs) a; hi = clamp_index (length xs) b
      in take (hi - lo) (drop lo xs))"

text \<open>\<^verbatim>\<open>xs.index(x)\<close> for an \<open>x\<close> that occurs in \<open>xs\<close>: the position of its first occurrence.\<close>

fun index :: "'a list \<Rightarrow> 'a \<Rightarrow> nat" where
  "index [] x = 0"
| "index (y # ys) x = (if y = x then 0 else Suc (index ys x))"

subsection \<open>Lines of text\<close>

definition nl :: char where
  "nl = CHR 0x0A"

text \<open>\<^verbatim>\<open>s.endswith('\n')\<close>\<close>

definition endswith_nl :: "string \<Rightarrow> bool" where
  "endswith_nl s = (s \<noteq> [] \<and> last s = nl)"

text \<open>\<^verbatim>\<open>s.split('\n')\<close>: the pieces between newlines; never an empty list.\<close>

fun split_nl :: "string \<Rightarrow> string list" where
  "split_nl [] = [[]]"
| "split_nl (c # cs) =
     (if c = nl then [] # split_nl cs
      else (case split_nl cs of [] \<Rightarrow> [[c]] | p # ps \<Rightarrow> (c # p) # ps))"

text \<open>
  Universal newlines, as \<^verbatim>\<open>open(path, 'r')\<close> applies them to what it reads:
  \<open>"\r\n"\<close> becomes \<open>"\n"\<close>, and a \<open>"\r"\<close> that no \<open>"\n"\<close> follows becomes \<open>"\n"\<close>.
\<close>

definition cr :: char where
  "cr = CHR 0x0D"

fun universal_newlines :: "string \<Rightarrow> string" where
  "universal_newlines [] = []"
| "universal_newlines [c] = (if c = cr then [nl] else [c])"
| "universal_newlines (c # d # ds) =
     (if c = cr then
        (if d = nl then nl # universal_newlines ds else nl # universal_newlines (d # ds))
      else c # universal_newlines (d # ds))"

text \<open>
  A text cut after every newline; each line keeps its terminator, and only the last line
  can lack one.
\<close>

fun cut_lines :: "string \<Rightarrow> string list" where
  "cut_lines [] = []"
| "cut_lines (c # cs) =
     (if c = nl then [nl] # cut_lines cs
      else (case cut_lines cs of [] \<Rightarrow> [[c]] | l # ls \<Rightarrow> (c # l) # ls))"

text \<open>
  \<^verbatim>\<open>f.readlines()\<close> on a file opened with \<^verbatim>\<open>open(path, 'r')\<close>: the lines of the
  content, after the translation of its newlines.
\<close>

definition readlines :: "string \<Rightarrow> string list" where
  "readlines content = cut_lines (universal_newlines content)"

text \<open>
  The splitting of the replacement text in the \<open>replace\<close> branch:
  \<^verbatim>\<open>
  new_lines = new_content.split('\n')
  if not new_content.endswith('\n'):
      new_lines = [l + '\n' for l in new_lines[:-1]] + [new_lines[-1] + '\n'] \
                  if new_lines[-1] else [l + '\n' for l in new_lines[:-1]]
  else:
      new_lines = [l + '\n' for l in new_lines[:-1]]
  \<close>
  (the conditional expression binds weaker than \<open>+\<close>).
\<close>

definition replace_new_lines :: "string \<Rightarrow> string list" where
  "replace_new_lines new_content =
     (let new_lines = split_nl new_content in
      if \<not> endswith_nl new_content then
        (if last new_lines \<noteq> []
         then map (\<lambda>l. l @ [nl]) (butlast new_lines) @ [last new_lines @ [nl]]
         else map (\<lambda>l. l @ [nl]) (butlast new_lines))
      else map (\<lambda>l. l @ [nl]) (butlast new_lines))"

text \<open>
  The splitting of the inserted text in the \<open>insert\<close> branch:
  \<^verbatim>\<open>
  new_lines = new_content.split('\n')
  new_lines = [l + '\n' for l in new_lines
               if l or new_lines.index(l) < len(new_lines)-1]
  \<close>
\<close>

definition insert_new_lines :: "string \<Rightarrow> string list" where
  "insert_new_lines new_content =
     (let new_lines = split_nl new_content in
      map (\<lambda>l. l @ [nl])
        (filter (\<lambda>l. l \<noteq> [] \<or> int (index new_lines l) < int (length new_lines) - 1)
           new_lines))"

subsection \<open>Integers as text\<close>

text \<open>\<^verbatim>\<open>str(n)\<close> for \<open>n \<ge> 0\<close>: the decimal digits.\<close>

fun str_nat :: "nat \<Rightarrow> string" where
  "str_nat n =
     (if n < 10 then [''0123456789'' ! n]
      else str_nat (n div 10) @ [''0123456789'' ! (n mod 10)])"

declare str_nat.simps [simp del]

text \<open>\<^verbatim>\<open>f"{i}"\<close>\<close>

definition str_int :: "int \<Rightarrow> string" where
  "str_int i = (if i < 0 then CHR ''-'' # str_nat (nat (- i)) else str_nat (nat i))"

text \<open>\<^verbatim>\<open>f"{i:4d}"\<close>: right-aligned in a field of at least four characters.\<close>

definition format_4d :: "int \<Rightarrow> string" where
  "format_4d i = (let s = str_int i in replicate (4 - length s) CHR '' '' @ s)"

text \<open>
  The exceptions that the program can raise: \<open>IndexError\<close> from \<^verbatim>\<open>sys.argv[i]\<close>,
  \<open>ValueError\<close> from \<^verbatim>\<open>int(s)\<close> with the literal \<open>s\<close>, \<open>FileNotFoundError\<close> and
  \<open>IsADirectoryError\<close> from \<^verbatim>\<open>open\<close> with the path, and \<open>OSError\<close> from a write that
  fails.
\<close>

datatype py_error =
    IndexError
  | ValueError string
  | FileNotFoundError string
  | IsADirectoryError string
  | OSError

text \<open>
  \<^verbatim>\<open>int(s)\<close> on ASCII text: surrounding whitespace (tab, newline, vertical tab, form
  feed, carriage return, space) is stripped, one sign is allowed, and the rest is decimal
  digits, with single underscores allowed between digits. Anything else raises
  \<open>ValueError\<close>, whose message quotes the literal \<open>s\<close>. (The interpreter's configurable
  limit on the number of digits is taken to be switched off.)
\<close>

definition is_space :: "char \<Rightarrow> bool" where
  "is_space c = (c \<in> set [CHR 0x09, CHR 0x0A, CHR 0x0B, CHR 0x0C, CHR 0x0D, CHR 0x20])"

definition is_digit :: "char \<Rightarrow> bool" where
  "is_digit c = (c \<in> set ''0123456789'')"

definition digit_value :: "char \<Rightarrow> nat" where
  "digit_value c = index ''0123456789'' c"

definition strip :: "string \<Rightarrow> string" where
  "strip s = rev (dropWhile is_space (rev (dropWhile is_space s)))"

fun parse_digits :: "nat \<Rightarrow> string \<Rightarrow> nat option" where
  "parse_digits acc [] = Some acc"
| "parse_digits acc (c # cs) =
     (if is_digit c then parse_digits (acc * 10 + digit_value c) cs
      else if c = CHR ''_'' then
        (case cs of [] \<Rightarrow> None
         | d # _ \<Rightarrow> if is_digit d then parse_digits acc cs else None)
      else None)"

definition parse_unsigned :: "string \<Rightarrow> nat option" where
  "parse_unsigned s =
     (case s of [] \<Rightarrow> None
      | c # _ \<Rightarrow> if is_digit c then parse_digits 0 s else None)"

definition parse_int :: "string \<Rightarrow> int option" where
  "parse_int s =
     (case strip s of [] \<Rightarrow> None
      | c # cs \<Rightarrow>
          if c = CHR ''-'' then map_option (\<lambda>n. - int n) (parse_unsigned cs)
          else if c = CHR ''+'' then map_option int (parse_unsigned cs)
          else map_option int (parse_unsigned (c # cs)))"

definition py_int :: "string \<Rightarrow> py_error + int" where
  "py_int s = (case parse_int s of None \<Rightarrow> Inl (ValueError s) | Some i \<Rightarrow> Inr i)"

subsection \<open>The environment\<close>

text \<open>
  A path at which there is no file is one of three kinds: a name in an existing directory,
  where opening for writing creates a file; a directory; or a name that cannot be
  reached (the empty path, a path through a directory that does not exist).
\<close>

datatype vacant = Can_create | Is_directory | No_such_directory

text \<open>
  \<open>files\<close> maps a path to the content of the file there, as it is on disk; \<open>vacant\<close>
  tells the kind of a path at which there is no file; \<open>stdin\<close> is the unread standard
  input; and \<open>fsize_limit\<close> is the largest size a file written by the process may reach
  (\<open>None\<close>: no limit). A write that would pass the limit stores what fits and raises
  \<open>OSError\<close>.
\<close>

record world =
  files :: "string \<Rightarrow> string option"
  vacant :: "string \<Rightarrow> vacant"
  stdin :: string
  fsize_limit :: "nat option"

text \<open>
  How a run ends: \<open>Exit n\<close> is the exit status \<open>n\<close> (\<^verbatim>\<open>sys.exit(n)\<close>, or \<open>0\<close> when
  \<open>main\<close> returns); \<open>Uncaught e\<close> is an exception that reaches the top level, which
  the interpreter reports on standard error before it exits with status \<open>1\<close>.
\<close>

datatype outcome = Exit nat | Uncaught py_error


text \<open>\<^verbatim>\<open>sys.argv[i]\<close>\<close>

definition arg :: "string list \<Rightarrow> nat \<Rightarrow> py_error + string" where
  "arg argv i = (if i < length argv then Inr (argv ! i) else Inl IndexError)"

text \<open>\<^verbatim>\<open>sys.stdin.read()\<close>: everything that is left, after which nothing is.\<close>

definition stdin_read :: "world \<Rightarrow> string \<times> world" where
  "stdin_read w = (stdin w, w\<lparr>stdin := []\<rparr>)"

text \<open>
  Writing \<open>data\<close> at the end of a file that holds \<open>old\<close>, under the size limit:
  whether the write succeeded, and what the file holds afterwards.
\<close>

definition store :: "nat option \<Rightarrow> string \<Rightarrow> string \<Rightarrow> bool \<times> string" where
  "store limit old data =
     (if data = [] then (True, old)
      else case limit of
        None \<Rightarrow> (True, old @ data)
      | Some n \<Rightarrow>
          if length old + length data \<le> n then (True, old @ data)
          else (False, old @ take (n - length old) data))"

text \<open>
  \<^verbatim>\<open>
  def read_file(filepath):
      with open(filepath, 'r') as f:
          return f.readlines()
  \<close>
\<close>

definition read_file :: "world \<Rightarrow> string \<Rightarrow> py_error + string list" where
  "read_file w filepath =
     (case files w filepath of
        None \<Rightarrow>
          (case vacant w filepath of
             Is_directory \<Rightarrow> Inl (IsADirectoryError filepath)
           | Can_create \<Rightarrow> Inl (FileNotFoundError filepath)
           | No_such_directory \<Rightarrow> Inl (FileNotFoundError filepath))
      | Some content \<Rightarrow> Inr (readlines content))"

text \<open>
  \<^verbatim>\<open>open(filepath, 'w')\<close> and \<^verbatim>\<open>open(filepath, 'a')\<close>: the content of the file that
  is opened, which is empty when the file is created by the call.
\<close>

definition open_for_writing :: "world \<Rightarrow> string \<Rightarrow> py_error + string" where
  "open_for_writing w filepath =
     (case files w filepath of
        None \<Rightarrow>
          (case vacant w filepath of
             Is_directory \<Rightarrow> Inl (IsADirectoryError filepath)
           | Can_create \<Rightarrow> Inr []
           | No_such_directory \<Rightarrow> Inl (FileNotFoundError filepath))
      | Some content \<Rightarrow> Inr content)"

text \<open>
  \<^verbatim>\<open>
  def write_file(filepath, lines):
      with open(filepath, 'w') as f:
          f.writelines(lines)
  \<close>
  Opening with mode \<open>'w'\<close> empties the file; then the lines are written one after the
  other.
\<close>

definition write_file :: "world \<Rightarrow> string \<Rightarrow> string list \<Rightarrow> (py_error + unit) \<times> world" where
  "write_file w filepath lines =
     (case open_for_writing w filepath of
        Inl e \<Rightarrow> (Inl e, w)
      | Inr old \<Rightarrow>
          (case store (fsize_limit w) [] (concat lines) of
             (ok, content) \<Rightarrow>
               (if ok then Inr () else Inl OSError,
                w\<lparr>files := (files w)(filepath \<mapsto> content)\<rparr>)))"

text \<open>
  \<^verbatim>\<open>
  with open(filepath, 'a') as f:
      f.write(new_content)
  \<close>
  Opening with mode \<open>'a'\<close> keeps the content of an existing file.
\<close>

definition append_file :: "world \<Rightarrow> string \<Rightarrow> string \<Rightarrow> (py_error + unit) \<times> world" where
  "append_file w filepath new_content =
     (case open_for_writing w filepath of
        Inl e \<Rightarrow> (Inl e, w)
      | Inr old \<Rightarrow>
          (case store (fsize_limit w) old new_content of
             (ok, content) \<Rightarrow>
               (if ok then Inr () else Inl OSError,
                w\<lparr>files := (files w)(filepath \<mapsto> content)\<rparr>)))"

subsection \<open>The five actions\<close>

text \<open>
  Each action takes \<^verbatim>\<open>sys.argv\<close> and the world, and returns how the run ends, what
  it printed on standard output, and the world it leaves. The steps are in the order of
  the source, so that the first exception raised there is the one returned here.
\<close>

text \<open>The module's docstring, printed by \<^verbatim>\<open>print(__doc__)\<close>.\<close>

definition doc :: string where
  "doc = ''\<newline>A tool to edit files by line number ranges or pattern matching.\<newline>'' @
         ''Usage:\<newline>'' @
         ''  python edit_file.py <file> replace <start_line> <end_line> <new_content>\<newline>'' @
         ''  python edit_file.py <file> insert <after_line> <new_content>\<newline>'' @
         ''  python edit_file.py <file> append <new_content>\<newline>'' @
         ''  python edit_file.py <file> delete <start_line> <end_line>\<newline>'' @
         ''  python edit_file.py <file> show <start_line> <end_line>\<newline>''"

text \<open>
  \<^verbatim>\<open>
  for i, line in enumerate(lines[start:end], start=start+1):
      print(f"{i:4d}: {line}", end='')
  \<close>
\<close>

fun show_lines :: "int \<Rightarrow> string list \<Rightarrow> string" where
  "show_lines i [] = []"
| "show_lines i (line # rest) = format_4d i @ '': '' @ line @ show_lines (i + 1) rest"

text \<open>
  \<^verbatim>\<open>
  lines = read_file(filepath)
  start = int(sys.argv[3]) - 1 if len(sys.argv) > 3 else 0
  end = int(sys.argv[4]) if len(sys.argv) > 4 else len(lines)
  \<close>
\<close>

definition show_action :: "string list \<Rightarrow> world \<Rightarrow> outcome \<times> string \<times> world" where
  "show_action argv w =
     (case read_file w (argv ! 1) of
        Inl e \<Rightarrow> (Uncaught e, [], w)
      | Inr lines \<Rightarrow>
     (case (if length argv > 3 then py_int (argv ! 3) else Inr 1) of
        Inl e \<Rightarrow> (Uncaught e, [], w)
      | Inr s \<Rightarrow>
     (case (if length argv > 4 then py_int (argv ! 4) else Inr (int (length lines))) of
        Inl e \<Rightarrow> (Uncaught e, [], w)
      | Inr end_line \<Rightarrow>
          (let start = s - 1
           in (Exit 0, show_lines (start + 1) (slice lines start end_line), w)))))"

text \<open>\<^verbatim>\<open>lines = lines[:start] + new_lines + lines[end:]\<close>\<close>

definition splice_lines :: "string list \<Rightarrow> int \<Rightarrow> int \<Rightarrow> string list \<Rightarrow> string list" where
  "splice_lines lines start end_line new_lines =
     slice_to lines start @ new_lines @ slice_from lines end_line"

text \<open>
  \<^verbatim>\<open>
  start = int(sys.argv[3]) - 1
  end = int(sys.argv[4])
  new_content = sys.argv[5] if len(sys.argv) > 5 else sys.stdin.read()
  lines = read_file(filepath)
  (new_lines: see replace_new_lines)
  lines = lines[:start] + new_lines + lines[end:]
  write_file(filepath, lines)
  print(f"Replaced lines {start+1}-{end} with {len(new_lines)} lines")
  \<close>
\<close>

definition replace_action :: "string list \<Rightarrow> world \<Rightarrow> outcome \<times> string \<times> world" where
  "replace_action argv w =
     (case arg argv 3 of Inl e \<Rightarrow> (Uncaught e, [], w) | Inr a3 \<Rightarrow>
     (case py_int a3 of Inl e \<Rightarrow> (Uncaught e, [], w) | Inr s \<Rightarrow>
     (case arg argv 4 of Inl e \<Rightarrow> (Uncaught e, [], w) | Inr a4 \<Rightarrow>
     (case py_int a4 of Inl e \<Rightarrow> (Uncaught e, [], w) | Inr end_line \<Rightarrow>
     (case (if length argv > 5 then (argv ! 5, w) else stdin_read w) of
        (new_content, w1) \<Rightarrow>
     (case read_file w1 (argv ! 1) of Inl e \<Rightarrow> (Uncaught e, [], w1) | Inr lines \<Rightarrow>
       (let start = s - 1;
            new_lines = replace_new_lines new_content
        in case write_file w1 (argv ! 1) (splice_lines lines start end_line new_lines) of
             (Inl e, w2) \<Rightarrow> (Uncaught e, [], w2)
           | (Inr u, w2) \<Rightarrow>
               (Exit 0,
                ''Replaced lines '' @ str_int (start + 1) @ ''-'' @ str_int end_line @
                '' with '' @ str_nat (length new_lines) @ '' lines'' @ [nl],
                w2))))))))"

text \<open>
  \<^verbatim>\<open>
  after_line = int(sys.argv[3])
  new_content = sys.argv[4] if len(sys.argv) > 4 else sys.stdin.read()
  lines = read_file(filepath)
  (new_lines: see insert_new_lines)
  lines = lines[:after_line] + new_lines + lines[after_line:]
  write_file(filepath, lines)
  print(f"Inserted {len(new_lines)} lines after line {after_line}")
  \<close>
\<close>

definition insert_action :: "string list \<Rightarrow> world \<Rightarrow> outcome \<times> string \<times> world" where
  "insert_action argv w =
     (case arg argv 3 of Inl e \<Rightarrow> (Uncaught e, [], w) | Inr a3 \<Rightarrow>
     (case py_int a3 of Inl e \<Rightarrow> (Uncaught e, [], w) | Inr after_line \<Rightarrow>
     (case (if length argv > 4 then (argv ! 4, w) else stdin_read w) of
        (new_content, w1) \<Rightarrow>
     (case read_file w1 (argv ! 1) of Inl e \<Rightarrow> (Uncaught e, [], w1) | Inr lines \<Rightarrow>
       (let new_lines = insert_new_lines new_content
        in case write_file w1 (argv ! 1) (splice_lines lines after_line after_line new_lines) of
             (Inl e, w2) \<Rightarrow> (Uncaught e, [], w2)
           | (Inr u, w2) \<Rightarrow>
               (Exit 0,
                ''Inserted '' @ str_nat (length new_lines) @ '' lines after line '' @
                str_int after_line @ [nl],
                w2))))))"

text \<open>
  \<^verbatim>\<open>
  new_content = sys.argv[3] if len(sys.argv) > 3 else sys.stdin.read()
  with open(filepath, 'a') as f:
      f.write(new_content)
  print(f"Appended content to {filepath}")
  \<close>
\<close>

definition append_action :: "string list \<Rightarrow> world \<Rightarrow> outcome \<times> string \<times> world" where
  "append_action argv w =
     (case (if length argv > 3 then (argv ! 3, w) else stdin_read w) of
        (new_content, w1) \<Rightarrow>
     (case append_file w1 (argv ! 1) new_content of
        (Inl e, w2) \<Rightarrow> (Uncaught e, [], w2)
      | (Inr u, w2) \<Rightarrow> (Exit 0, ''Appended content to '' @ argv ! 1 @ [nl], w2)))"

text \<open>
  \<^verbatim>\<open>
  start = int(sys.argv[3]) - 1
  end = int(sys.argv[4])
  lines = read_file(filepath)
  lines = lines[:start] + lines[end:]
  write_file(filepath, lines)
  print(f"Deleted lines {start+1}-{end}")
  \<close>
\<close>

definition delete_action :: "string list \<Rightarrow> world \<Rightarrow> outcome \<times> string \<times> world" where
  "delete_action argv w =
     (case arg argv 3 of Inl e \<Rightarrow> (Uncaught e, [], w) | Inr a3 \<Rightarrow>
     (case py_int a3 of Inl e \<Rightarrow> (Uncaught e, [], w) | Inr s \<Rightarrow>
     (case arg argv 4 of Inl e \<Rightarrow> (Uncaught e, [], w) | Inr a4 \<Rightarrow>
     (case py_int a4 of Inl e \<Rightarrow> (Uncaught e, [], w) | Inr end_line \<Rightarrow>
     (case read_file w (argv ! 1) of Inl e \<Rightarrow> (Uncaught e, [], w) | Inr lines \<Rightarrow>
       (let start = s - 1
        in case write_file w (argv ! 1) (splice_lines lines start end_line []) of
             (Inl e, w2) \<Rightarrow> (Uncaught e, [], w2)
           | (Inr u, w2) \<Rightarrow>
               (Exit 0,
                ''Deleted lines '' @ str_int (start + 1) @ ''-'' @ str_int end_line @ [nl],
                w2)))))))"

subsection \<open>The program\<close>

text \<open>
  \<^verbatim>\<open>
  def main():
      if len(sys.argv) < 3:
          print(__doc__)
          sys.exit(1)
      filepath = sys.argv[1]
      action = sys.argv[2]
      if action == "show": ... return
      if action == "replace": ... return
      if action == "insert": ... return
      if action == "append": ... return
      if action == "delete": ... return
  \<close>
  An action that is none of the five falls through every test, and \<open>main\<close> returns.
\<close>

definition main :: "string list \<Rightarrow> world \<Rightarrow> outcome \<times> string \<times> world" where
  "main argv w =
     (if length argv < 3 then (Exit 1, doc @ [nl], w)
      else let action = argv ! 2 in
        if action = ''show'' then show_action argv w
        else if action = ''replace'' then replace_action argv w
        else if action = ''insert'' then insert_action argv w
        else if action = ''append'' then append_action argv w
        else if action = ''delete'' then delete_action argv w
        else (Exit 0, [], w))"

subsection \<open>Auxiliary notions for the statements\<close>

text \<open>A file of \<open>n\<close> characters can be written in full under the world's size limit.\<close>

definition within_limit :: "world \<Rightarrow> nat \<Rightarrow> bool" where
  "within_limit w n = (case fsize_limit w of None \<Rightarrow> True | Some m \<Rightarrow> n \<le> m)"

text \<open>
  The supplied text with a terminator added, unless it is empty or already ends in one.
\<close>

definition terminated :: "string \<Rightarrow> string" where
  "terminated t = (if t = [] \<or> endswith_nl t then t else t @ [nl])"

text \<open>The document at a path: the lines that \<open>read_file\<close> returns there.\<close>

definition document :: "world \<Rightarrow> string \<Rightarrow> string list" where
  "document w filepath =
     (case files w filepath of None \<Rightarrow> [] | Some content \<Rightarrow> readlines content)"

text \<open>
  A line as \<open>cut_lines\<close> produces it: not empty, with no newline before its last
  character. A list of lines is well formed when every line but the last is terminated;
  these are the lists that reading a file can give.
\<close>

definition is_line :: "string \<Rightarrow> bool" where
  "is_line l = (l \<noteq> [] \<and> nl \<notin> set (butlast l))"

definition well_formed :: "string list \<Rightarrow> bool" where
  "well_formed ls = (list_all is_line ls \<and> list_all endswith_nl (butlast ls))"

text \<open>Worlds with one file, used to run the program on concrete input.\<close>

definition example_world :: world where
  "example_world =
     \<lparr>files = [''notes.txt'' \<mapsto> ''one\<newline>two\<newline>three\<newline>''],
      vacant = (\<lambda>p. if p = [] then No_such_directory else Can_create),
      stdin = ''more\<newline>'',
      fsize_limit = None\<rparr>"

definition six_lines_world :: world where
  "six_lines_world =
     \<lparr>files = [''notes.txt'' \<mapsto> ''1\<newline>2\<newline>3\<newline>4\<newline>5\<newline>6\<newline>''],
      vacant = (\<lambda>p. Can_create),
      stdin = [],
      fsize_limit = None\<rparr>"

definition blank_line_world :: world where
  "blank_line_world =
     \<lparr>files = [''notes.txt'' \<mapsto> ''a\<newline>\<newline>b\<newline>''],
      vacant = (\<lambda>p. Can_create),
      stdin = [],
      fsize_limit = None\<rparr>"

definition open_end_world :: world where
  "open_end_world =
     \<lparr>files = [''notes.txt'' \<mapsto> ''a\<newline>b''],
      vacant = (\<lambda>p. Can_create),
      stdin = [],
      fsize_limit = None\<rparr>"

definition crlf_world :: world where
  "crlf_world =
     \<lparr>files = [''notes.txt'' \<mapsto> [CHR ''a'', cr, nl, CHR ''b'', cr, nl]],
      vacant = (\<lambda>p. Can_create),
      stdin = [],
      fsize_limit = None\<rparr>"

section \<open>Properties\<close>

subsection \<open>Evaluation and basic facts\<close>

lemmas run_defs =
  main_def show_action_def replace_action_def insert_action_def append_action_def
  delete_action_def arg_def py_int_def parse_int_def strip_def is_space_def
  parse_unsigned_def is_digit_def digit_value_def read_file_def write_file_def
  append_file_def open_for_writing_def store_def stdin_read_def splice_lines_def
  slice_def slice_to_def slice_from_def clamp_index_def replace_new_lines_def
  insert_new_lines_def readlines_def endswith_nl_def nl_def cr_def str_int_def
  format_4d_def str_nat.simps eval_nat_numeral

lemmas parse_defs =
  parse_int_def strip_def is_space_def parse_unsigned_def is_digit_def digit_value_def

lemma py_int_Some: "parse_int a = Some i \<Longrightarrow> py_int a = Inr i"
  by (simp add: py_int_def)

lemma py_int_None: "parse_int a = None \<Longrightarrow> py_int a = Inl (ValueError a)"
  by (simp add: py_int_def)

lemma store_within_limit:
  "(case limit of None \<Rightarrow> True | Some m \<Rightarrow> length old + length data \<le> m) \<Longrightarrow>
   store limit old data = (True, old @ data)"
  by (auto simp: store_def split: option.splits)


lemma write_file_within_limit:
  assumes "files w filepath = Some content"
    and "within_limit w (length (concat lines))"
  shows "write_file w filepath lines
           = (Inr (), w\<lparr>files := (files w)(filepath \<mapsto> concat lines)\<rparr>)"
proof -
  have "store (fsize_limit w) [] (concat lines) = (True, [] @ concat lines)"
    using assms(2)
    by (intro store_within_limit) (auto simp: within_limit_def split: option.splits)
  then show ?thesis using assms(1) by (simp add: write_file_def open_for_writing_def)
qed


lemma write_file_result:
  "files w p = Some content \<Longrightarrow> write_file w p ls = (r, w') \<Longrightarrow>
   r = Inr () \<or> r = Inl OSError"
  by (auto simp: write_file_def open_for_writing_def split: prod.splits if_splits)

lemma append_file_unwritten:
  "append_file w p t = (Inl e, w') \<Longrightarrow> e \<noteq> OSError \<Longrightarrow> w' = w"
  by (auto simp: append_file_def split: sum.splits prod.splits if_splits)

subsection \<open>Positions in range\<close>

lemma clamp_index_nat: "n \<le> m \<Longrightarrow> clamp_index m (int n) = n"
  by (simp add: clamp_index_def)

lemma clamp_index_pred: "1 \<le> n \<Longrightarrow> n - 1 \<le> m \<Longrightarrow> clamp_index m (int n - 1) = n - 1"
proof -
  assume a: "1 \<le> n" "n - 1 \<le> m"
  then have "int n - 1 = int (n - 1)" by simp
  with a show ?thesis by (simp only: clamp_index_nat)
qed

lemma splice_lines_valid_range:
  assumes "1 \<le> s" and "s \<le> e" and "e \<le> length lines"
  shows "splice_lines lines (int s - 1) (int e) new_lines
           = take (s - 1) lines @ new_lines @ drop e lines"
proof -
  have "s \<le> length lines" using assms by simp
  then show ?thesis
    using assms by (simp add: splice_lines_def slice_to_def slice_from_def
        clamp_index_pred clamp_index_nat)
qed

lemma splice_lines_insert_position:
  assumes "a \<le> length lines"
  shows "splice_lines lines (int a) (int a) new_lines
           = take a lines @ new_lines @ drop a lines"
  using assms
  by (simp add: splice_lines_def slice_to_def slice_from_def clamp_index_nat)

lemma nth_splice_before:
  "i < lo \<Longrightarrow> lo \<le> length xs \<Longrightarrow> (take lo xs @ ys @ zs) ! i = xs ! i"
  by (simp add: nth_append)

lemma nth_splice_after:
  assumes "hi \<le> i" and "i < length xs" and "lo \<le> hi"
  shows "(take lo xs @ ys @ drop hi xs) ! (lo + length ys + (i - hi)) = xs ! i"
proof -
  have "length (take lo xs @ ys) = lo + length ys"
    using assms by simp
  then have "(take lo xs @ ys @ drop hi xs) ! (lo + length ys + (i - hi))
      = drop hi xs ! (i - hi)"
    by (metis append.assoc nth_append_length_plus)
  then show ?thesis using assms by simp
qed

subsection \<open>Splitting and cutting text\<close>

lemma split_nl_not_Nil: "split_nl t \<noteq> []"
  by (induction t) (auto split: list.splits)

lemma split_nl_single_empty: "split_nl t = [[]] \<Longrightarrow> t = []"
  by (cases t) (auto simp: split_nl_not_Nil split: list.splits if_splits)

lemma last_split_nl_empty:
  "last (split_nl t) = [] \<longleftrightarrow> \<not> (t \<noteq> [] \<and> last t \<noteq> nl)"
  by (induction t)
     (auto simp: split_nl_not_Nil dest: split_nl_single_empty split: list.splits)

lemma split_nl_snoc: "split_nl (t @ [nl]) = split_nl t @ [[]]"
  by (induction t) (auto simp: split_nl_not_Nil split: list.splits)

lemma split_nl_pieces: "p \<in> set (split_nl t) \<Longrightarrow> nl \<notin> set p"
proof (induction t arbitrary: p)
  case Nil
  then show ?case by simp
next
  case (Cons c t)
  then show ?case
    by (cases "split_nl t") (auto split: if_splits)
qed

text \<open>
  Cutting and splitting see the same pieces: the lines of a text are its pieces with the
  terminator put back, and a last piece that is not empty is a last line without one.
\<close>

lemma cut_lines_split_nl:
  "cut_lines t =
     map (\<lambda>l. l @ [nl]) (butlast (split_nl t)) @
     (if last (split_nl t) = [] then [] else [last (split_nl t)])"
  by (induction t) (auto simp: split_nl_not_Nil split: list.splits)

lemma concat_cut_lines: "concat (cut_lines t) = t"
  by (induction t) (auto split: list.splits)

lemma cut_lines_snoc_nl: "cut_lines (t @ [nl]) = map (\<lambda>l. l @ [nl]) (split_nl t)"
  by (simp add: cut_lines_split_nl split_nl_snoc)

lemma replace_new_lines_cut_lines: "replace_new_lines t = cut_lines (terminated t)"
proof (cases "t = [] \<or> endswith_nl t")
  case True
  then have "last (split_nl t) = []"
    by (auto simp: last_split_nl_empty endswith_nl_def)
  with True show ?thesis
    by (auto simp: replace_new_lines_def terminated_def cut_lines_split_nl endswith_nl_def)
next
  case False
  then have "last (split_nl t) \<noteq> []"
    by (auto simp: last_split_nl_empty endswith_nl_def)
  moreover have "butlast (split_nl t) @ [last (split_nl t)] = split_nl t"
    by (simp add: split_nl_not_Nil)
  then have "map (\<lambda>l. l @ [nl]) (butlast (split_nl t)) @ [last (split_nl t) @ [nl]]
     = map (\<lambda>l. l @ [nl]) (split_nl t)"
    by (metis (no_types, lifting) list.simps(8,9) map_append)
  ultimately show ?thesis using False
    by (simp add: replace_new_lines_def terminated_def cut_lines_snoc_nl)
qed

lemma replace_new_lines_all_terminated: "list_all endswith_nl (replace_new_lines t)"
  by (simp add: replace_new_lines_def endswith_nl_def list_all_iff Let_def)

lemma insert_new_lines_all_terminated: "list_all endswith_nl (insert_new_lines t)"
  by (simp add: insert_new_lines_def endswith_nl_def list_all_iff Let_def)

lemma index_snoc_fresh: "x \<notin> set xs \<Longrightarrow> index (xs @ [x]) x = length xs"
  by (induction xs) auto

lemma index_less: "x \<in> set xs \<Longrightarrow> index (xs @ ys) x < length xs"
  by (induction xs) auto

text \<open>
  The test \<^verbatim>\<open>new_lines.index(l) < len(new_lines)-1\<close> of the \<open>insert\<close> branch looks for
  the first empty piece. It drops an empty last piece only when no piece before it is
  empty; a last piece that is not empty is kept, as are all the pieces before the last.
  So the two branches split alike, unless the text ends in a terminator and has an empty
  line before that.
\<close>

lemma insert_new_lines_eq_replace:
  assumes "\<not> (last (split_nl t) = [] \<and> [] \<in> set (butlast (split_nl t)))"
  shows "insert_new_lines t = replace_new_lines t"
proof -
  define s where "s = split_nl t"
  define b where "b = butlast s"
  have s: "s = b @ [last s]" by (simp add: b_def s_def split_nl_not_Nil)
  have len: "length s = Suc (length b)" by (subst s) simp
  have e: "endswith_nl t \<Longrightarrow> last s = []"
    by (auto simp: s_def last_split_nl_empty endswith_nl_def)
  have filtered: "filter (\<lambda>l. l \<noteq> [] \<or> int (index s l) < int (length s) - 1) s
      = b @ (if last s = [] then [] else [last s])"
  proof (cases "last s = []")
    case True
    with assms have fresh: "[] \<notin> set b" by (simp add: b_def s_def)
    then have keep: "filter (\<lambda>l. l \<noteq> [] \<or> int (index s l) < int (length s) - 1) b = b"
      by (auto simp: filter_id_conv)
    have "index s [] = length b"
      using index_snoc_fresh [OF fresh] s True by metis
    with True len have drop_last: "\<not> int (index s (last s)) < int (length s) - 1"
      by simp
    show ?thesis
      apply (subst (3) s)
      using keep drop_last True by (simp del: butlast_snoc)
  next
    case False
    have "l \<noteq> [] \<or> int (index s l) < int (length s) - 1" if "l \<in> set s" for l
    proof (cases "l = []")
      case True
      with that False have "l \<in> set b"
        by (metis s in_set_conv_decomp_last butlast_snoc last_snoc rotate1.simps(2)
            set_ConsD set_rotate1)
      then have "index (b @ [last s]) l < length b" by (rule index_less)
      then show ?thesis using s len by simp
    next
      case False
      then show ?thesis by simp
    qed
    then have "filter (\<lambda>l. l \<noteq> [] \<or> int (index s l) < int (length s) - 1) s = s"
      by (simp add: filter_id_conv)
    with False show ?thesis using s by simp
  qed
  then have ins: "insert_new_lines t
      = map (\<lambda>l. l @ [nl]) (b @ (if last s = [] then [] else [last s]))"
    by (simp add: insert_new_lines_def s_def Let_def)
  show ?thesis
    unfolding ins
    by (auto simp: replace_new_lines_def Let_def s_def[symmetric] b_def[symmetric] e)
qed

text \<open>
  Claim C1, as the code has it. Text splitting terminates every line it produces,
  also a last fragment that had no terminator: \<open>"a\nb\nc"\<close> and \<open>"a\nb\nc\n"\<close> both
  give the three lines \<open>"a\n"\<close>, \<open>"b\n"\<close>, \<open>"c\n"\<close> and no fourth line, in \<open>replace\<close> and
  in \<open>insert\<close>. For \<open>replace\<close> the lines produced are exactly the lines of the supplied
  text once a missing final terminator is added, so that their concatenation is the text,
  or the text and one terminator. \<open>insert\<close> produces the same lines, unless the text
  ends in a terminator and has an empty line before that.
\<close>

theorem text_splitting_terminates_every_line:
  "replace_new_lines ''a\<newline>b\<newline>c'' = [''a\<newline>'', ''b\<newline>'', ''c\<newline>'']
   \<and> replace_new_lines ''a\<newline>b\<newline>c\<newline>'' = [''a\<newline>'', ''b\<newline>'', ''c\<newline>'']
   \<and> insert_new_lines ''a\<newline>b\<newline>c'' = [''a\<newline>'', ''b\<newline>'', ''c\<newline>'']
   \<and> insert_new_lines ''a\<newline>b\<newline>c\<newline>'' = [''a\<newline>'', ''b\<newline>'', ''c\<newline>'']
   \<and> list_all endswith_nl (replace_new_lines new_content)
   \<and> list_all endswith_nl (insert_new_lines new_content)
   \<and> replace_new_lines new_content = cut_lines (terminated new_content)
   \<and> concat (replace_new_lines new_content) = terminated new_content
   \<and> (\<not> (last (split_nl new_content) = [] \<and> [] \<in> set (butlast (split_nl new_content)))
        \<longrightarrow> insert_new_lines new_content = replace_new_lines new_content)"
proof -
  have "replace_new_lines ''a\<newline>b\<newline>c'' = [''a\<newline>'', ''b\<newline>'', ''c\<newline>'']"
    and "replace_new_lines ''a\<newline>b\<newline>c\<newline>'' = [''a\<newline>'', ''b\<newline>'', ''c\<newline>'']"
    by (simp_all add: replace_new_lines_def endswith_nl_def nl_def)
  moreover have "insert_new_lines ''a\<newline>b\<newline>c'' = [''a\<newline>'', ''b\<newline>'', ''c\<newline>'']"
    and "insert_new_lines ''a\<newline>b\<newline>c\<newline>'' = [''a\<newline>'', ''b\<newline>'', ''c\<newline>'']"
    by (simp_all add: insert_new_lines_def nl_def)
  moreover have "concat (replace_new_lines new_content) = terminated new_content"
    by (simp add: replace_new_lines_cut_lines concat_cut_lines)
  ultimately show ?thesis
    using replace_new_lines_all_terminated [of new_content]
      insert_new_lines_all_terminated [of new_content]
      replace_new_lines_cut_lines [of new_content]
      insert_new_lines_eq_replace [of new_content]
    by blast
qed

theorem text_splitting_terminates_every_line_witness:
  "\<not> (last (split_nl ''x = 1\<newline>\<newline>y = 2'') = []
        \<and> [] \<in> set (butlast (split_nl ''x = 1\<newline>\<newline>y = 2'')))
   \<and> insert_new_lines ''x = 1\<newline>\<newline>y = 2'' = [''x = 1\<newline>'', ''\<newline>'', ''y = 2\<newline>'']
   \<and> replace_new_lines ''x = 1\<newline>\<newline>y = 2'' = [''x = 1\<newline>'', ''\<newline>'', ''y = 2\<newline>'']
   \<and> concat (replace_new_lines ''x = 1\<newline>\<newline>y = 2'') = ''x = 1\<newline>\<newline>y = 2\<newline>''"
proof -
  have r: "replace_new_lines ''x = 1\<newline>\<newline>y = 2'' = [''x = 1\<newline>'', ''\<newline>'', ''y = 2\<newline>'']"
    by (simp add: replace_new_lines_def endswith_nl_def nl_def)
  have h: "\<not> (last (split_nl ''x = 1\<newline>\<newline>y = 2'') = []
        \<and> [] \<in> set (butlast (split_nl ''x = 1\<newline>\<newline>y = 2'')))"
    by (simp add: nl_def)
  show ?thesis
    using text_splitting_terminates_every_line [of "''x = 1\<newline>\<newline>y = 2''"] r h
    by (simp add: terminated_def endswith_nl_def nl_def)
qed

text \<open>
  The third line of \<open>"a\nb\nc"\<close> does end in a newline, in both branches.
\<close>

theorem final_fragment_terminated_counterexample:
  "length (replace_new_lines ''a\<newline>b\<newline>c'') = 3
   \<and> endswith_nl (replace_new_lines ''a\<newline>b\<newline>c'' ! 2)
   \<and> length (insert_new_lines ''a\<newline>b\<newline>c'') = 3
   \<and> endswith_nl (insert_new_lines ''a\<newline>b\<newline>c'' ! 2)"
  by (simp add: replace_new_lines_def insert_new_lines_def endswith_nl_def nl_def)

subsection \<open>Lists of lines that reading gives\<close>

lemma cut_lines_terminated_line:
  "nl \<notin> set p \<Longrightarrow> cut_lines (p @ nl # rest) = (p @ [nl]) # cut_lines rest"
  by (induction p) auto

lemma cut_lines_unterminated_line:
  "nl \<notin> set p \<Longrightarrow> p \<noteq> [] \<Longrightarrow> cut_lines p = [p]"
proof (induction p)
  case Nil
  then show ?case by simp
next
  case (Cons a p)
  show ?case
  proof (cases "p = []")
    case True
    with Cons.prems show ?thesis by simp
  next
    case False
    with Cons have "cut_lines p = [p]" by simp
    moreover from Cons.prems have "a \<noteq> nl" by auto
    ultimately show ?thesis by simp
  qed
qed

lemma is_line_cases:
  assumes "is_line l"
  obtains (terminated) p where "l = p @ [nl]" "nl \<notin> set p"
        | (open_end) "nl \<notin> set l" "l \<noteq> []"
proof (cases "last l = nl")
  case True
  define p where "p = butlast l"
  from assms have "l \<noteq> []" by (simp add: is_line_def)
  with True have "butlast l @ [nl] = l" by (metis append_butlast_last_id)
  then have "l = p @ [nl]" "nl \<notin> set p"
    using assms by (simp_all add: p_def is_line_def)
  then show ?thesis by (rule terminated)
next
  case False
  from assms have ne: "l \<noteq> []" and b: "nl \<notin> set (butlast l)"
    by (simp_all add: is_line_def)
  from ne have "set l = set (butlast l) \<union> {last l}"
    by (metis append_butlast_last_id empty_set list.simps(15) set_append Un_insert_right
        sup_bot.right_neutral)
  with False b have "nl \<notin> set l" by auto
  then show ?thesis using ne by (rule open_end)
qed

lemma cut_lines_concat:
  "well_formed ls \<Longrightarrow> cut_lines (concat ls) = ls"
proof (induction ls)
  case Nil
  then show ?case by simp
next
  case (Cons l ls)
  from Cons.prems have l: "is_line l" by (simp add: well_formed_def)
  show ?case
  proof (cases "ls = []")
    case True
    from l show ?thesis
    proof (cases rule: is_line_cases)
      case (terminated p)
      with True cut_lines_terminated_line [of p "[]"] show ?thesis by simp
    next
      case open_end
      with True show ?thesis by (simp add: cut_lines_unterminated_line)
    qed
  next
    case False
    with Cons.prems have wf: "well_formed ls" and e: "endswith_nl l"
      by (auto simp: well_formed_def)
    define p where "p = butlast l"
    from e have "l \<noteq> []" and "last l = nl" by (simp_all add: endswith_nl_def)
    then have "butlast l @ [nl] = l" by (metis append_butlast_last_id)
    then have p: "l = p @ [nl]" "nl \<notin> set p"
      using l by (simp_all add: p_def is_line_def)
    show ?thesis
      using Cons.IH [OF wf] cut_lines_terminated_line [OF p(2), of "concat ls"] p(1)
      by simp
  qed
qed

lemma well_formed_cut_lines: "well_formed (cut_lines c)"
proof (induction c)
  case Nil
  then show ?case by (simp add: well_formed_def)
next
  case (Cons a c)
  show ?case
  proof (cases "a = nl")
    case True
    with Cons show ?thesis
      by (cases "cut_lines c") (auto simp: well_formed_def is_line_def endswith_nl_def)
  next
    case False
    with Cons show ?thesis
      by (cases "cut_lines c")
         (auto simp: well_formed_def is_line_def endswith_nl_def split: if_splits)
  qed
qed

lemma replace_new_lines_well_formed: "well_formed (replace_new_lines t)"
  by (simp add: replace_new_lines_cut_lines well_formed_cut_lines)

lemma insert_new_lines_well_formed:
  "well_formed (insert_new_lines t) \<and> list_all endswith_nl (insert_new_lines t)"
proof -
  have "is_line (p @ [nl]) \<and> endswith_nl (p @ [nl])" if "p \<in> set (split_nl t)" for p
    using split_nl_pieces [OF that] by (simp add: is_line_def endswith_nl_def)
  then have "\<forall>l \<in> set (insert_new_lines t). is_line l \<and> endswith_nl l"
    by (auto simp: insert_new_lines_def Let_def)
  then show ?thesis
    by (auto simp: well_formed_def list_all_iff dest: in_set_butlastD)
qed

lemma well_formed_take_drop_aux:
  assumes "well_formed lines" and "well_formed new_lines"
    and "list_all endswith_nl new_lines"
    and "lo \<le> hi" and "hi \<le> length lines"
    and "lo < length lines \<or> list_all endswith_nl lines"
  shows "well_formed (take lo lines @ new_lines @ drop hi lines)"
proof -
  have front: "\<forall>l \<in> set (take lo lines). endswith_nl l"
  proof (cases "lo < length lines")
    case True
    then have "take lo lines = take lo (butlast lines)"
      by (simp add: take_butlast)
    then have "set (take lo lines) \<subseteq> set (butlast lines)"
      by (metis set_take_subset)
    then show ?thesis
      using assms(1) by (auto simp: well_formed_def list_all_iff)
  next
    case False
    with assms(6) show ?thesis
      by (auto simp: list_all_iff dest: in_set_takeD)
  qed
  have new: "\<forall>l \<in> set new_lines. endswith_nl l"
    using assms(3) by (simp add: list_all_iff)
  have lines: "list_all is_line (take lo lines @ new_lines @ drop hi lines)"
    using assms(1,2) by (auto simp: well_formed_def list_all_iff dest: in_set_takeD in_set_dropD)
  have ends: "\<forall>l \<in> set (butlast (take lo lines @ new_lines @ drop hi lines)). endswith_nl l"
  proof (cases "drop hi lines = []")
    case True
    then have "set (butlast (take lo lines @ new_lines @ drop hi lines))
        \<subseteq> set (take lo lines) \<union> set new_lines"
      using in_set_butlastD by fastforce
    then show ?thesis using front new by blast
  next
    case False
    then have "butlast (take lo lines @ new_lines @ drop hi lines)
        = take lo lines @ new_lines @ butlast (drop hi lines)"
      by (simp add: butlast_append)
    moreover have "butlast (drop hi lines) = drop hi (butlast lines)"
      by (simp only: butlast_drop)
    moreover have "\<forall>l \<in> set (drop hi (butlast lines)). endswith_nl l"
      using assms(1) by (auto simp: well_formed_def list_all_iff dest: in_set_dropD)
    ultimately show ?thesis using front new by auto
  qed
  show ?thesis unfolding well_formed_def using lines ends by (simp add: list_all_iff)
qed

lemma well_formed_take_drop:
  assumes "well_formed lines" and "well_formed new_lines"
    and "list_all endswith_nl new_lines"
    and "lo \<le> hi" and "hi \<le> length lines"
    and "lo < length lines \<or> list_all endswith_nl lines \<or> new_lines = []"
  shows "well_formed (take lo lines @ new_lines @ drop hi lines)"
proof (cases "lo < length lines \<or> list_all endswith_nl lines")
  case True
  with assms(1-5) show ?thesis by (rule well_formed_take_drop_aux)
next
  case False
  with assms have "new_lines = []" and "length lines \<le> lo" and "length lines \<le> hi"
    by auto
  with assms(1) show ?thesis by simp
qed

lemma cut_lines_all_terminated:
  assumes "t = [] \<or> endswith_nl t"
  shows "list_all endswith_nl (cut_lines t)"
proof -
  from assms have "last (split_nl t) = []"
    by (auto simp: last_split_nl_empty endswith_nl_def)
  then show ?thesis
    by (simp add: cut_lines_split_nl list_all_iff endswith_nl_def)
qed

lemma concat_all_terminated:
  assumes "list_all endswith_nl ls"
  shows "concat ls = [] \<or> endswith_nl (concat ls)"
proof (cases "ls = []")
  case True
  then show ?thesis by simp
next
  case False
  then have ls: "ls = butlast ls @ [last ls]" by simp
  from False assms have "endswith_nl (last ls)" by (simp add: list_all_iff)
  then have "endswith_nl (concat (butlast ls) @ last ls)"
    by (simp add: endswith_nl_def)
  moreover have "concat ls = concat (butlast ls) @ last ls"
    by (subst ls) simp
  ultimately show ?thesis by simp
qed

subsection \<open>Universal newlines\<close>

lemma nl_neq_cr: "nl \<noteq> cr"
  by (simp add: nl_def cr_def)

lemma cr_neq_nl: "cr \<noteq> nl"
  by (simp add: nl_def cr_def)

lemma universal_newlines_Cons_other:
  "c \<noteq> cr \<Longrightarrow> universal_newlines (c # cs) = c # universal_newlines cs"
  by (cases cs) simp_all

lemma universal_newlines_Cons_other':
  "cr \<noteq> c \<Longrightarrow> universal_newlines (c # cs) = c # universal_newlines cs"
  by (cases cs) auto

lemma universal_newlines_Nil: "universal_newlines t = [] \<longleftrightarrow> t = []"
  by (induction t rule: universal_newlines.induct) auto

lemma universal_newlines_no_cr: "cr \<notin> set (universal_newlines t)"
  by (induction t rule: universal_newlines.induct) (auto simp: nl_def cr_def)

lemma universal_newlines_id: "cr \<notin> set t \<Longrightarrow> universal_newlines t = t"
  by (induction t) (simp_all add: universal_newlines_Cons_other')

lemma universal_newlines_changes: "cr \<in> set t \<Longrightarrow> universal_newlines t \<noteq> t"
  using universal_newlines_no_cr [of t] by auto

lemma universal_newlines_append_left:
  "cr \<notin> set xs \<Longrightarrow> universal_newlines (xs @ ys) = xs @ universal_newlines ys"
  by (induction xs) (simp_all add: universal_newlines_Cons_other')

lemma universal_newlines_append_right:
  "cr \<notin> set ys \<Longrightarrow> xs = [] \<or> last xs \<noteq> cr \<Longrightarrow>
   universal_newlines (xs @ ys) = universal_newlines xs @ ys"
proof (induction xs rule: universal_newlines.induct)
  case 1
  then show ?case by (simp add: universal_newlines_id)
next
  case (2 c)
  then show ?case by (simp add: universal_newlines_Cons_other universal_newlines_id)
next
  case (3 c d ds)
  then show ?case
    by (cases "ds = []") (auto simp: universal_newlines_id)
qed

lemma universal_newlines_endswith_nl:
  "endswith_nl t \<Longrightarrow> endswith_nl (universal_newlines t)"
proof (induction t rule: universal_newlines.induct)
  case 1
  then show ?case by (simp add: endswith_nl_def)
next
  case (2 c)
  then show ?case by (simp add: endswith_nl_def)
next
  case (3 c d ds)
  then show ?case
    by (cases "ds = []") (auto simp: endswith_nl_def universal_newlines_Nil)
qed

text \<open>What reading gives: well-formed lines without carriage returns.\<close>

lemma well_formed_readlines: "well_formed (readlines content)"
  by (simp add: readlines_def well_formed_cut_lines)

lemma concat_readlines: "concat (readlines content) = universal_newlines content"
  by (simp add: readlines_def concat_cut_lines)

lemma readlines_no_cr: "cr \<notin> set (concat (readlines content))"
  by (simp add: concat_readlines universal_newlines_no_cr)

lemma readlines_plain: "cr \<notin> set t \<Longrightarrow> readlines t = cut_lines t"
  by (simp add: readlines_def universal_newlines_id)

lemma readlines_all_terminated:
  assumes "list_all endswith_nl ls"
  shows "list_all endswith_nl (readlines (concat ls))"
proof -
  define t where "t = concat ls"
  from concat_all_terminated [OF assms] have "t = [] \<or> endswith_nl t"
    by (simp add: t_def)
  then have "universal_newlines t = [] \<or> endswith_nl (universal_newlines t)"
    using universal_newlines_endswith_nl [of t] by auto
  then have "universal_newlines (concat ls) = []
      \<or> endswith_nl (universal_newlines (concat ls))"
    by (simp only: t_def)
  then show ?thesis
    unfolding readlines_def by (rule cut_lines_all_terminated)
qed

text \<open>
  Reading what an edit has written. The lines kept from the document come back as they
  are, around the lines that reading makes of the new text; this needs the new lines to
  be terminated, and fails only when lines are put behind a last line that has no
  terminator.
\<close>

lemma readlines_spliced:
  assumes "well_formed D" and "cr \<notin> set (concat D)"
    and "list_all endswith_nl N"
    and "lo \<le> hi" and "hi \<le> length D"
    and "lo < length D \<or> list_all endswith_nl D \<or> N = []"
  shows "readlines (concat (take lo D @ N @ drop hi D))
           = take lo D @ readlines (concat N) @ drop hi D"
proof -
  define N' where "N' = readlines (concat N)"
  have A: "cr \<notin> set (concat (take lo D))" and B: "cr \<notin> set (concat (drop hi D))"
    using assms(2) by (auto dest: in_set_takeD in_set_dropD)
  have mid: "concat N = [] \<or> last (concat N) \<noteq> cr"
    using concat_all_terminated [OF assms(3)] by (auto simp: endswith_nl_def nl_neq_cr)
  have "universal_newlines (concat (take lo D @ N @ drop hi D))
      = concat (take lo D) @ universal_newlines (concat N @ concat (drop hi D))"
    using A by (simp add: universal_newlines_append_left)
  also have "\<dots> = concat (take lo D) @ universal_newlines (concat N) @ concat (drop hi D)"
    using B mid by (simp add: universal_newlines_append_right)
  also have "\<dots> = concat (take lo D @ N' @ drop hi D)"
    by (simp add: N'_def concat_readlines)
  finally have translated: "universal_newlines (concat (take lo D @ N @ drop hi D))
      = concat (take lo D @ N' @ drop hi D)" .
  have "N = [] \<Longrightarrow> N' = []"
    by (simp add: N'_def readlines_def)
  then have "well_formed (take lo D @ N' @ drop hi D)"
    using assms
    by (intro well_formed_take_drop)
       (auto simp: N'_def well_formed_readlines readlines_all_terminated)
  then show ?thesis
    unfolding readlines_def [of "concat (take lo D @ N @ drop hi D)"] translated
    unfolding N'_def [symmetric] by (simp only: cut_lines_concat N'_def)
qed

subsection \<open>Runs that succeed\<close>

text \<open>
  With its arguments present, its line numbers integers, the file there and the write
  within the limit, each editing action writes the concatenation of the spliced lines and
  prints its report.
\<close>

lemma within_limit_stdin [simp]: "within_limit (w\<lparr>stdin := x\<rparr>) n = within_limit w n"
  by (simp add: within_limit_def)

lemma replace_action_ok:
  assumes "4 < length argv"
    and "parse_int (argv ! 3) = Some s" and "parse_int (argv ! 4) = Some e"
    and "files w (argv ! 1) = Some content"
    and "new_lines = replace_new_lines (if 5 < length argv then argv ! 5 else stdin w)"
    and "lines' = splice_lines (readlines content) (s - 1) e new_lines"
    and "within_limit w (length (concat lines'))"
  shows "replace_action argv w =
     (Exit 0,
      ''Replaced lines '' @ str_int s @ ''-'' @ str_int e @ '' with '' @
        str_nat (length new_lines) @ '' lines'' @ [nl],
      (if 5 < length argv then w else w\<lparr>stdin := []\<rparr>)
        \<lparr>files := (files w)(argv ! 1 \<mapsto> concat lines')\<rparr>)"
proof (cases "5 < length argv")
  case True
  with assms show ?thesis
    by (simp add: replace_action_def arg_def py_int_Some read_file_def
        write_file_within_limit [where content = content] Let_def)
next
  case False
  with assms show ?thesis
    by (simp add: replace_action_def arg_def py_int_Some read_file_def stdin_read_def
        write_file_within_limit [where content = content] Let_def)
qed

lemma insert_action_ok:
  assumes "3 < length argv"
    and "parse_int (argv ! 3) = Some a"
    and "files w (argv ! 1) = Some content"
    and "new_lines = insert_new_lines (if 4 < length argv then argv ! 4 else stdin w)"
    and "lines' = splice_lines (readlines content) a a new_lines"
    and "within_limit w (length (concat lines'))"
  shows "insert_action argv w =
     (Exit 0,
      ''Inserted '' @ str_nat (length new_lines) @ '' lines after line '' @ str_int a @ [nl],
      (if 4 < length argv then w else w\<lparr>stdin := []\<rparr>)
        \<lparr>files := (files w)(argv ! 1 \<mapsto> concat lines')\<rparr>)"
proof (cases "4 < length argv")
  case True
  with assms show ?thesis
    by (simp add: insert_action_def arg_def py_int_Some read_file_def
        write_file_within_limit [where content = content] Let_def)
next
  case False
  with assms show ?thesis
    by (simp add: insert_action_def arg_def py_int_Some read_file_def stdin_read_def
        write_file_within_limit [where content = content] Let_def)
qed

lemma delete_action_ok:
  assumes "4 < length argv"
    and "parse_int (argv ! 3) = Some s" and "parse_int (argv ! 4) = Some e"
    and "files w (argv ! 1) = Some content"
    and "lines' = splice_lines (readlines content) (s - 1) e []"
    and "within_limit w (length (concat lines'))"
  shows "delete_action argv w =
     (Exit 0, ''Deleted lines '' @ str_int s @ ''-'' @ str_int e @ [nl],
      w\<lparr>files := (files w)(argv ! 1 \<mapsto> concat lines')\<rparr>)"
  using assms
  by (simp add: delete_action_def arg_def py_int_Some read_file_def
      write_file_within_limit [where content = content] Let_def)

lemma append_action_ok:
  assumes "files w (argv ! 1) = Some old"
    and "new_content = (if 3 < length argv then argv ! 3 else stdin w)"
    and "within_limit w (length old + length new_content)"
  shows "append_action argv w =
     (Exit 0, ''Appended content to '' @ argv ! 1 @ [nl],
      (if 3 < length argv then w else w\<lparr>stdin := []\<rparr>)
        \<lparr>files := (files w)(argv ! 1 \<mapsto> old @ new_content)\<rparr>)"
  using assms
  by (auto simp: append_action_def append_file_def open_for_writing_def stdin_read_def
      within_limit_def store_within_limit split: option.splits)


lemma main_dispatch:
  assumes "3 \<le> length argv"
  shows "argv ! 2 = ''show'' \<Longrightarrow> main argv w = show_action argv w"
    and "argv ! 2 = ''replace'' \<Longrightarrow> main argv w = replace_action argv w"
    and "argv ! 2 = ''insert'' \<Longrightarrow> main argv w = insert_action argv w"
    and "argv ! 2 = ''append'' \<Longrightarrow> main argv w = append_action argv w"
    and "argv ! 2 = ''delete'' \<Longrightarrow> main argv w = delete_action argv w"
  using assms by (simp_all add: main_def)

lemma document_written [simp]:
  "document (w\<lparr>files := (files w)(p \<mapsto> c)\<rparr>) p = readlines c"
  "document (w\<lparr>stdin := x, files := (files w)(p \<mapsto> c)\<rparr>) p = readlines c"
  by (simp_all add: document_def)

lemma well_formed_all_terminated:
  assumes "well_formed D" and "D = [] \<or> endswith_nl (last D)"
  shows "list_all endswith_nl D"
proof (cases "D = []")
  case True
  then show ?thesis by simp
next
  case False
  then have "D = butlast D @ [last D]" by simp
  then have "set D = set (butlast D) \<union> {last D}"
    by (metis Un_insert_right list.simps(15) set_append set_empty2 sup_bot.right_neutral)
  with assms False show ?thesis
    by (auto simp: well_formed_def list_all_iff)
qed

subsection \<open>Lines outside the edited span\<close>

lemma replace_document:
  assumes "files w (argv ! 1) = Some content" and "D = readlines content"
    and "argv ! 2 = ''replace''" and "4 < length argv"
    and "parse_int (argv ! 3) = Some (int s)" and "parse_int (argv ! 4) = Some (int e)"
    and "1 \<le> s" and "s \<le> e" and "e \<le> length D"
    and "N = replace_new_lines (if 5 < length argv then argv ! 5 else stdin w)"
    and "within_limit w (length (concat (take (s - 1) D @ N @ drop e D)))"
    and "main argv w = (oc, out, w')"
  shows "oc = Exit 0"
    and "document w' (argv ! 1) = take (s - 1) D @ readlines (concat N) @ drop e D"
proof -
  have sp: "splice_lines (readlines content) (int s - 1) (int e) N
      = take (s - 1) D @ N @ drop e D"
    using assms(2,7-9) by (simp add: splice_lines_valid_range)
  have run: "main argv w =
     (Exit 0,
      ''Replaced lines '' @ str_int (int s) @ ''-'' @ str_int (int e) @ '' with '' @
        str_nat (length N) @ '' lines'' @ [nl],
      (if 5 < length argv then w else w\<lparr>stdin := []\<rparr>)
        \<lparr>files := (files w)(argv ! 1 \<mapsto> concat (take (s - 1) D @ N @ drop e D))\<rparr>)"
    using assms(3,4) replace_action_ok [OF assms(4,5,6,1,10) sp [symmetric] assms(11)]
    by (simp add: main_dispatch)
  with assms(12) show "oc = Exit 0" by simp
  have wf: "well_formed D" and nocr: "cr \<notin> set (concat D)"
    unfolding assms(2) by (rule well_formed_readlines, rule readlines_no_cr)
  have "list_all endswith_nl N"
    by (simp add: assms(10) replace_new_lines_all_terminated)
  moreover have "s - 1 < length D" using assms(7-9) by simp
  ultimately have "readlines (concat (take (s - 1) D @ N @ drop e D))
      = take (s - 1) D @ readlines (concat N) @ drop e D"
    using assms(7-9) wf nocr
    by (intro readlines_spliced) simp_all
  with run assms(12) show "document w' (argv ! 1)
      = take (s - 1) D @ readlines (concat N) @ drop e D"
    by (auto split: if_splits)
qed

lemma delete_document:
  assumes "files w (argv ! 1) = Some content" and "D = readlines content"
    and "argv ! 2 = ''delete''" and "4 < length argv"
    and "parse_int (argv ! 3) = Some (int s)" and "parse_int (argv ! 4) = Some (int e)"
    and "1 \<le> s" and "s \<le> e" and "e \<le> length D"
    and "within_limit w (length (concat (take (s - 1) D @ drop e D)))"
    and "main argv w = (oc, out, w')"
  shows "oc = Exit 0"
    and "document w' (argv ! 1) = take (s - 1) D @ drop e D"
proof -
  have sp: "splice_lines (readlines content) (int s - 1) (int e) []
      = take (s - 1) D @ drop e D"
    using assms(2,7-9) by (simp add: splice_lines_valid_range)
  have run: "main argv w =
     (Exit 0, ''Deleted lines '' @ str_int (int s) @ ''-'' @ str_int (int e) @ [nl],
      w\<lparr>files := (files w)(argv ! 1 \<mapsto> concat (take (s - 1) D @ drop e D))\<rparr>)"
    using assms(3,4) delete_action_ok [OF assms(4,5,6,1) sp [symmetric] assms(10)]
    by (simp add: main_dispatch)
  with assms(11) show "oc = Exit 0" by simp
  have wf: "well_formed D" and nocr: "cr \<notin> set (concat D)"
    unfolding assms(2) by (rule well_formed_readlines, rule readlines_no_cr)
  have "readlines (concat (take (s - 1) D @ [] @ drop e D))
      = take (s - 1) D @ readlines (concat []) @ drop e D"
    using assms(7-9) wf nocr
    by (intro readlines_spliced) simp_all
  then have "readlines (concat (take (s - 1) D @ drop e D)) = take (s - 1) D @ drop e D"
    by (simp add: readlines_def)
  with run assms(11) show "document w' (argv ! 1) = take (s - 1) D @ drop e D"
    by auto
qed

lemma insert_document:
  assumes "files w (argv ! 1) = Some content" and "D = readlines content"
    and "argv ! 2 = ''insert''" and "3 < length argv"
    and "parse_int (argv ! 3) = Some (int a)" and "a \<le> length D"
    and "M = insert_new_lines (if 4 < length argv then argv ! 4 else stdin w)"
    and "\<not> (a = length D \<and> D \<noteq> [] \<and> \<not> endswith_nl (last D) \<and> M \<noteq> [])"
    and "within_limit w (length (concat (take a D @ M @ drop a D)))"
    and "main argv w = (oc, out, w')"
  shows "oc = Exit 0"
    and "document w' (argv ! 1) = take a D @ readlines (concat M) @ drop a D"
proof -
  have sp: "splice_lines (readlines content) (int a) (int a) M = take a D @ M @ drop a D"
    using assms(2,6) by (simp add: splice_lines_insert_position)
  have run: "main argv w =
     (Exit 0,
      ''Inserted '' @ str_nat (length M) @ '' lines after line '' @ str_int (int a) @ [nl],
      (if 4 < length argv then w else w\<lparr>stdin := []\<rparr>)
        \<lparr>files := (files w)(argv ! 1 \<mapsto> concat (take a D @ M @ drop a D))\<rparr>)"
    using assms(3,4) insert_action_ok [OF assms(4,5,1,7) sp [symmetric] assms(9)]
    by (simp add: main_dispatch)
  with assms(10) show "oc = Exit 0" by simp
  have wf: "well_formed D" and nocr: "cr \<notin> set (concat D)"
    unfolding assms(2) by (rule well_formed_readlines, rule readlines_no_cr)
  have guard: "a < length D \<or> list_all endswith_nl D \<or> M = []"
  proof (cases "a < length D \<or> M = []")
    case True
    then show ?thesis by auto
  next
    case False
    with assms(6,8) have "D = [] \<or> endswith_nl (last D)" by auto
    with wf show ?thesis by (simp add: well_formed_all_terminated)
  qed
  have "list_all endswith_nl M"
    by (simp add: assms(7) insert_new_lines_all_terminated)
  then have "readlines (concat (take a D @ M @ drop a D))
      = take a D @ readlines (concat M) @ drop a D"
    using assms(6) guard wf nocr
    by (intro readlines_spliced) simp_all
  with run assms(10) show "document w' (argv ! 1)
      = take a D @ readlines (concat M) @ drop a D"
    by (auto split: if_splits)
qed

text \<open>
  Claim C2, as the code has it. The document is the list of lines that reading the file
  gives, with universal newlines. For a file that is there, integer arguments and a
  write within the limit: a \<open>replace\<close> or a \<open>delete\<close> of a range \<open>[s, e]\<close> with
  \<open>1 \<le> s \<le> e \<le> len\<close> succeeds, and the document read afterwards is the old lines
  before the range, then the lines that reading makes of the new text (none for
  \<open>delete\<close>), then the old lines after the range; so line \<open>i\<close> before the range stays
  at position \<open>i\<close>, and line \<open>i\<close> after it moves by the difference of the lengths.
  An \<open>insert\<close> after line \<open>a \<le> len\<close> succeeds and keeps every line of the document
  in the same way, unless it puts at least one line behind a last line that has no
  terminator. (Positions count from \<open>0\<close>, as \<open>!\<close> does.)
\<close>

theorem edit_keeps_lines_outside_span:
  fixes s e a i :: nat
  assumes "files w (argv ! 1) = Some content" and "D = readlines content"
    and "main argv w = (oc, out, w')"
  shows
   "(argv ! 2 = ''replace'' \<and> 4 < length argv
       \<and> parse_int (argv ! 3) = Some (int s) \<and> parse_int (argv ! 4) = Some (int e)
       \<and> 1 \<le> s \<and> s \<le> e \<and> e \<le> length D
       \<and> N = replace_new_lines (if 5 < length argv then argv ! 5 else stdin w)
       \<and> within_limit w (length (concat (take (s - 1) D @ N @ drop e D)))
      \<longrightarrow> oc = Exit 0
          \<and> document w' (argv ! 1) = take (s - 1) D @ readlines (concat N) @ drop e D
          \<and> (i < s - 1 \<longrightarrow> document w' (argv ! 1) ! i = D ! i)
          \<and> (e \<le> i \<and> i < length D \<longrightarrow>
               document w' (argv ! 1) ! (s - 1 + length (readlines (concat N)) + (i - e))
                 = D ! i))
    \<and> (argv ! 2 = ''delete'' \<and> 4 < length argv
       \<and> parse_int (argv ! 3) = Some (int s) \<and> parse_int (argv ! 4) = Some (int e)
       \<and> 1 \<le> s \<and> s \<le> e \<and> e \<le> length D
       \<and> within_limit w (length (concat (take (s - 1) D @ drop e D)))
      \<longrightarrow> oc = Exit 0
          \<and> document w' (argv ! 1) = take (s - 1) D @ drop e D
          \<and> (i < s - 1 \<longrightarrow> document w' (argv ! 1) ! i = D ! i)
          \<and> (e \<le> i \<and> i < length D \<longrightarrow>
               document w' (argv ! 1) ! (s - 1 + (i - e)) = D ! i))
    \<and> (argv ! 2 = ''insert'' \<and> 3 < length argv
       \<and> parse_int (argv ! 3) = Some (int a) \<and> a \<le> length D
       \<and> M = insert_new_lines (if 4 < length argv then argv ! 4 else stdin w)
       \<and> \<not> (a = length D \<and> D \<noteq> [] \<and> \<not> endswith_nl (last D) \<and> M \<noteq> [])
       \<and> within_limit w (length (concat (take a D @ M @ drop a D)))
      \<longrightarrow> oc = Exit 0
          \<and> document w' (argv ! 1) = take a D @ readlines (concat M) @ drop a D
          \<and> (i < a \<longrightarrow> document w' (argv ! 1) ! i = D ! i)
          \<and> (a \<le> i \<and> i < length D \<longrightarrow>
               document w' (argv ! 1) ! (i + length (readlines (concat M))) = D ! i))"
proof (intro conjI impI; (elim conjE)?)
  assume h: "argv ! 2 = ''replace''" "4 < length argv"
    "parse_int (argv ! 3) = Some (int s)" "parse_int (argv ! 4) = Some (int e)"
    "1 \<le> s" "s \<le> e" "e \<le> length D"
    "N = replace_new_lines (if 5 < length argv then argv ! 5 else stdin w)"
    "within_limit w (length (concat (take (s - 1) D @ N @ drop e D)))"
  note r = replace_document [OF assms(1,2) h assms(3)]
  show "oc = Exit 0" by (rule r(1))
  show "document w' (argv ! 1) = take (s - 1) D @ readlines (concat N) @ drop e D"
    by (rule r(2))
  { assume "i < s - 1"
    then show "document w' (argv ! 1) ! i = D ! i"
      unfolding r(2) using h(5-7) by (intro nth_splice_before) simp_all }
  { assume "e \<le> i" "i < length D"
    then show "document w' (argv ! 1) ! (s - 1 + length (readlines (concat N)) + (i - e))
        = D ! i"
      unfolding r(2) using h(5-7) by (intro nth_splice_after) simp_all }
next
  assume h: "argv ! 2 = ''delete''" "4 < length argv"
    "parse_int (argv ! 3) = Some (int s)" "parse_int (argv ! 4) = Some (int e)"
    "1 \<le> s" "s \<le> e" "e \<le> length D"
    "within_limit w (length (concat (take (s - 1) D @ drop e D)))"
  note r = delete_document [OF assms(1,2) h assms(3)]
  show "oc = Exit 0" by (rule r(1))
  show "document w' (argv ! 1) = take (s - 1) D @ drop e D" by (rule r(2))
  { assume "i < s - 1"
    then have "(take (s - 1) D @ [] @ drop e D) ! i = D ! i"
      using h(5-7) by (intro nth_splice_before) simp_all
    then show "document w' (argv ! 1) ! i = D ! i"
      unfolding r(2) by simp }
  { assume "e \<le> i" "i < length D"
    then have "(take (s - 1) D @ [] @ drop e D) ! (s - 1 + length ([] :: string list) + (i - e))
        = D ! i"
      using h(5-7) by (intro nth_splice_after) simp_all
    then show "document w' (argv ! 1) ! (s - 1 + (i - e)) = D ! i"
      unfolding r(2) by simp }
next
  assume h: "argv ! 2 = ''insert''" "3 < length argv"
    "parse_int (argv ! 3) = Some (int a)" "a \<le> length D"
    "M = insert_new_lines (if 4 < length argv then argv ! 4 else stdin w)"
    "\<not> (a = length D \<and> D \<noteq> [] \<and> \<not> endswith_nl (last D) \<and> M \<noteq> [])"
    "within_limit w (length (concat (take a D @ M @ drop a D)))"
  note r = insert_document [OF assms(1,2) h assms(3)]
  show "oc = Exit 0" by (rule r(1))
  show "document w' (argv ! 1) = take a D @ readlines (concat M) @ drop a D"
    by (rule r(2))
  { assume "i < a"
    then show "document w' (argv ! 1) ! i = D ! i"
      unfolding r(2) using h(4) by (intro nth_splice_before) simp_all }
  { assume "a \<le> i" "i < length D"
    then have idx: "a + length (readlines (concat M)) + (i - a)
        = i + length (readlines (concat M))"
      by simp
    have "(take a D @ readlines (concat M) @ drop a D)
          ! (a + length (readlines (concat M)) + (i - a)) = D ! i"
      using \<open>a \<le> i\<close> \<open>i < length D\<close> by (intro nth_splice_after) simp_all
    then show "document w' (argv ! 1) ! (i + length (readlines (concat M))) = D ! i"
      unfolding r(2) idx . }
qed

lemmas read_defs = readlines_def document_def nl_def cr_def

lemma parse_int_1: "parse_int ''1'' = Some 1"
  by (simp add: parse_defs)

lemma parse_int_2: "parse_int ''2'' = Some 2"
  by (simp add: parse_defs)

lemma parse_int_3: "parse_int ''3'' = Some 3"
  by (simp add: parse_defs)

lemma parse_int_4: "parse_int ''4'' = Some 4"
  by (simp add: parse_defs)

theorem edit_keeps_lines_outside_span_witness:
  "main [''edit_file.py'', ''notes.txt'', ''replace'', ''2'', ''2'', ''TWO''] example_world
     = (Exit 0, ''Replaced lines 2-2 with 1 lines\<newline>'',
        example_world\<lparr>files :=
          (files example_world)(''notes.txt'' \<mapsto> ''one\<newline>TWO\<newline>three\<newline>'')\<rparr>)
   \<and> document (example_world\<lparr>files :=
          (files example_world)(''notes.txt'' \<mapsto> ''one\<newline>TWO\<newline>three\<newline>'')\<rparr>) ''notes.txt''
       = [''one\<newline>'', ''TWO\<newline>'', ''three\<newline>'']
   \<and> main [''edit_file.py'', ''notes.txt'', ''delete'', ''1'', ''1''] example_world
     = (Exit 0, ''Deleted lines 1-1\<newline>'',
        example_world\<lparr>files := (files example_world)(''notes.txt'' \<mapsto> ''two\<newline>three\<newline>'')\<rparr>)
   \<and> document (example_world\<lparr>files :=
          (files example_world)(''notes.txt'' \<mapsto> ''two\<newline>three\<newline>'')\<rparr>) ''notes.txt'' ! (1 - 1 + (2 - 1))
       = ''three\<newline>''
   \<and> main [''edit_file.py'', ''notes.txt'', ''insert'', ''3'', ''four''] example_world
     = (Exit 0, ''Inserted 1 lines after line 3\<newline>'',
        example_world\<lparr>files :=
          (files example_world)(''notes.txt'' \<mapsto> ''one\<newline>two\<newline>three\<newline>four\<newline>'')\<rparr>)
   \<and> document (example_world\<lparr>files :=
          (files example_world)(''notes.txt'' \<mapsto> ''one\<newline>two\<newline>three\<newline>four\<newline>'')\<rparr>) ''notes.txt'' ! 2
       = ''three\<newline>''"
proof -
  let ?D = "[''one\<newline>'', ''two\<newline>'', ''three\<newline>'']"
  have f6: "files example_world ([''edit_file.py'', ''notes.txt'', x, y, z, t] ! 1)
      = Some ''one\<newline>two\<newline>three\<newline>''" for x y z t
    by (simp add: example_world_def)
  have f5: "files example_world ([''edit_file.py'', ''notes.txt'', x, y, z] ! 1)
      = Some ''one\<newline>two\<newline>three\<newline>''" for x y z
    by (simp add: example_world_def)
  have D: "?D = readlines ''one\<newline>two\<newline>three\<newline>''"
    by (simp add: read_defs)
  have r: "main [''edit_file.py'', ''notes.txt'', ''replace'', ''2'', ''2'', ''TWO''] example_world
     = (Exit 0, ''Replaced lines 2-2 with 1 lines\<newline>'',
        example_world\<lparr>files :=
          (files example_world)(''notes.txt'' \<mapsto> ''one\<newline>TWO\<newline>three\<newline>'')\<rparr>)"
    by (simp add: run_defs example_world_def)
  have d: "main [''edit_file.py'', ''notes.txt'', ''delete'', ''1'', ''1''] example_world
     = (Exit 0, ''Deleted lines 1-1\<newline>'',
        example_world\<lparr>files := (files example_world)(''notes.txt'' \<mapsto> ''two\<newline>three\<newline>'')\<rparr>)"
    by (simp add: run_defs example_world_def)
  have i: "main [''edit_file.py'', ''notes.txt'', ''insert'', ''3'', ''four''] example_world
     = (Exit 0, ''Inserted 1 lines after line 3\<newline>'',
        example_world\<lparr>files :=
          (files example_world)(''notes.txt'' \<mapsto> ''one\<newline>two\<newline>three\<newline>four\<newline>'')\<rparr>)"
    by (simp add: run_defs example_world_def)
  have new: "replace_new_lines ''TWO'' = [''TWO\<newline>'']" "insert_new_lines ''four'' = [''four\<newline>'']"
    by (simp_all add: replace_new_lines_def insert_new_lines_def endswith_nl_def nl_def)
  have lim: "within_limit example_world n" for n
    by (simp add: within_limit_def example_world_def)
  have rd: "readlines ''TWO\<newline>'' = [''TWO\<newline>'']" "readlines ''four\<newline>'' = [''four\<newline>'']"
    by (simp_all add: read_defs)
  show ?thesis
    using
      edit_keeps_lines_outside_span [OF f6 D r,
        where s = 2 and e = 2 and i = 0 and N = "[''TWO\<newline>'']"]
      edit_keeps_lines_outside_span [OF f5 D d, where s = 1 and e = 1 and i = 2]
      edit_keeps_lines_outside_span [OF f5 D i,
        where a = 3 and i = 2 and M = "[''four\<newline>'']"]
      r d i
    by (simp add: parse_int_1 parse_int_2 parse_int_3 new lim rd endswith_nl_def nl_def)
qed

text \<open>
  Two runs after which a line outside the span is not what it was. The file
  \<open>"a\r\nb\r\n"\<close> without its first line is written as \<open>"b\n"\<close>: the second line has lost
  its carriage return. The file \<open>"a\nb"\<close> with \<open>"c"\<close> inserted after line 2 is written as
  \<open>"a\nbc\n"\<close>: the second line \<open>"b"\<close> has become \<open>"bc\n"\<close>.
\<close>

theorem edit_rewrites_lines_counterexample:
  "main [''edit_file.py'', ''notes.txt'', ''delete'', ''1'', ''1''] crlf_world
     = (Exit 0, ''Deleted lines 1-1\<newline>'',
        crlf_world\<lparr>files := (files crlf_world)(''notes.txt'' \<mapsto> ''b\<newline>'')\<rparr>)
   \<and> files crlf_world ''notes.txt'' = Some [CHR ''a'', cr, nl, CHR ''b'', cr, nl]
   \<and> cut_lines [CHR ''a'', cr, nl, CHR ''b'', cr, nl] ! 1 = [CHR ''b'', cr, nl]
   \<and> cut_lines ''b\<newline>'' ! 0 = ''b\<newline>''
   \<and> [CHR ''b'', cr, nl] \<noteq> ''b\<newline>''
   \<and> main [''edit_file.py'', ''notes.txt'', ''insert'', ''2'', ''c''] open_end_world
     = (Exit 0, ''Inserted 1 lines after line 2\<newline>'',
        open_end_world\<lparr>files := (files open_end_world)(''notes.txt'' \<mapsto> ''a\<newline>bc\<newline>'')\<rparr>)
   \<and> document open_end_world ''notes.txt'' = [''a\<newline>'', ''b'']
   \<and> readlines ''a\<newline>bc\<newline>'' = [''a\<newline>'', ''bc\<newline>'']"
  by (simp add: run_defs document_def crlf_world_def open_end_world_def)

subsection \<open>Replacing three lines of six by two\<close>

text \<open>
  Claim C3, as the code has it. Replacing lines \<open>[2, 4]\<close> of a file of six lines by a
  text that splits into two lines succeeds, reports \<open>Replaced lines 2-4 with 2 lines\<close>,
  and writes a document of \<open>6 - 3 + 2 = 5\<close> lines: line 1 is the old line 1, lines 2
  and 3 are the two new lines, and lines 4 and 5 are the old lines 5 and 6. Reading the
  file again gives these five lines exactly when the new text has no carriage return.
  (The six lines are the lines read, with universal newlines; the write is assumed to
  fit under the size limit.)
\<close>

theorem replace_2_4_of_six_lines:
  assumes "files w path = Some content"
    and "length (readlines content) = 6"
    and "length (replace_new_lines new_content) = 2"
    and "lines' = splice_lines (readlines content) 1 4 (replace_new_lines new_content)"
    and "within_limit w (length (concat lines'))"
  shows "main [prog, path, ''replace'', ''2'', ''4'', new_content] w =
           (Exit 0, ''Replaced lines 2-4 with 2 lines\<newline>'',
            w\<lparr>files := (files w)(path \<mapsto> concat lines')\<rparr>)
         \<and> length lines' = 5
         \<and> lines' ! 0 = readlines content ! 0
         \<and> [lines' ! 1, lines' ! 2] = replace_new_lines new_content
         \<and> lines' ! 3 = readlines content ! 4
         \<and> lines' ! 4 = readlines content ! 5
         \<and> (readlines (concat lines') = lines') = (cr \<notin> set new_content)"
proof -
  let ?argv = "[prog, path, ''replace'', ''2'', ''4'', new_content]"
  let ?D = "readlines content"
  let ?N = "replace_new_lines new_content"
  have "replace_action ?argv w =
     (Exit 0,
      ''Replaced lines '' @ str_int 2 @ ''-'' @ str_int 4 @ '' with '' @
        str_nat (length ?N) @ '' lines'' @ [nl],
      (if 5 < length ?argv then w else w\<lparr>stdin := []\<rparr>)
        \<lparr>files := (files w)(?argv ! 1 \<mapsto> concat lines')\<rparr>)"
    by (rule replace_action_ok [where content = content])
       (use assms in \<open>simp_all add: parse_int_2 parse_int_4\<close>)
  then have run: "main ?argv w =
           (Exit 0, ''Replaced lines 2-4 with 2 lines\<newline>'',
            w\<lparr>files := (files w)(path \<mapsto> concat lines')\<rparr>)"
    using assms(3) by (simp add: main_def str_int_def str_nat.simps nl_def)
  obtain n1 n2 where new: "?N = [n1, n2]"
    using assms(3) by (auto simp: length_Suc_conv eval_nat_numeral)
  obtain l1 l2 l3 l4 l5 l6 where old: "?D = [l1, l2, l3, l4, l5, l6]"
    using assms(2) by (auto simp: length_Suc_conv eval_nat_numeral)
  have shape: "lines' = [l1, n1, n2, l5, l6]"
    by (simp add: assms(4) new old splice_lines_def slice_to_def slice_from_def clamp_index_def)
  have spliced: "lines' = take 1 ?D @ ?N @ drop 4 ?D"
    by (simp add: shape new old)
  have "readlines (concat (take 1 ?D @ ?N @ drop 4 ?D))
      = take 1 ?D @ readlines (concat ?N) @ drop 4 ?D"
    using assms(2)
    by (intro readlines_spliced well_formed_readlines readlines_no_cr
        replace_new_lines_all_terminated) simp_all
  then have again: "readlines (concat lines') = take 1 ?D @ readlines (concat ?N) @ drop 4 ?D"
    by (simp only: spliced)
  have text_cr: "set (concat ?N) = set (terminated new_content)"
    by (simp only: replace_new_lines_cut_lines concat_cut_lines)
  have reread: "(readlines (concat lines') = lines') = (cr \<notin> set new_content)"
  proof
    assume same: "readlines (concat lines') = lines'"
    have "cr \<notin> set (concat (readlines (concat lines')))"
      by (rule readlines_no_cr)
    then have "cr \<notin> set (concat lines')" unfolding same .
    then have "cr \<notin> set (concat ?N)" unfolding shape new by auto
    then show "cr \<notin> set new_content"
      unfolding text_cr by (auto simp: terminated_def split: if_splits)
  next
    assume "cr \<notin> set new_content"
    then have "cr \<notin> set (terminated new_content)"
      by (auto simp: terminated_def cr_neq_nl)
    then have "readlines (terminated new_content) = cut_lines (terminated new_content)"
      by (rule readlines_plain)
    then have "readlines (concat ?N) = ?N"
      by (simp only: replace_new_lines_cut_lines concat_cut_lines)
    with again have "readlines (concat lines') = take 1 ?D @ ?N @ drop 4 ?D"
      by metis
    with spliced show "readlines (concat lines') = lines'"
      by metis
  qed
  show ?thesis using run new old shape reread by simp
qed

theorem replace_2_4_of_six_lines_witness:
  "main [''edit_file.py'', ''notes.txt'', ''replace'', ''2'', ''4'', ''X\<newline>Y\<newline>''] six_lines_world
     = (Exit 0, ''Replaced lines 2-4 with 2 lines\<newline>'',
        six_lines_world\<lparr>files :=
          (files six_lines_world)(''notes.txt'' \<mapsto> ''1\<newline>X\<newline>Y\<newline>5\<newline>6\<newline>'')\<rparr>)"
proof -
  have a: "files six_lines_world ''notes.txt'' = Some ''1\<newline>2\<newline>3\<newline>4\<newline>5\<newline>6\<newline>''"
    by (simp add: six_lines_world_def)
  have b: "length (readlines ''1\<newline>2\<newline>3\<newline>4\<newline>5\<newline>6\<newline>'') = 6"
    by (simp add: read_defs)
  have c: "length (replace_new_lines ''X\<newline>Y\<newline>'') = 2"
    by (simp add: replace_new_lines_def endswith_nl_def nl_def)
  have d: "splice_lines (readlines ''1\<newline>2\<newline>3\<newline>4\<newline>5\<newline>6\<newline>'') 1 4 (replace_new_lines ''X\<newline>Y\<newline>'')
            = [''1\<newline>'', ''X\<newline>'', ''Y\<newline>'', ''5\<newline>'', ''6\<newline>'']"
    by (simp add: splice_lines_def slice_to_def slice_from_def clamp_index_def
        replace_new_lines_def endswith_nl_def read_defs)
  have e: "within_limit six_lines_world
             (length (concat [''1\<newline>'', ''X\<newline>'', ''Y\<newline>'', ''5\<newline>'', ''6\<newline>'']))"
    by (simp add: within_limit_def six_lines_world_def)
  show ?thesis
    using replace_2_4_of_six_lines [OF a b c d [symmetric] e, of "''edit_file.py''"]
    by simp
qed

text \<open>
  The new line 3 is the second line of the replacement, not an old line: the new
  lines 3 to 5 are not the old lines 5 to 6.
\<close>

theorem new_line_three_is_replacement_counterexample:
  "main [''edit_file.py'', ''notes.txt'', ''replace'', ''2'', ''4'', ''X\<newline>Y\<newline>''] six_lines_world
     = (Exit 0, ''Replaced lines 2-4 with 2 lines\<newline>'',
        six_lines_world\<lparr>files :=
          (files six_lines_world)(''notes.txt'' \<mapsto> ''1\<newline>X\<newline>Y\<newline>5\<newline>6\<newline>'')\<rparr>)
   \<and> readlines ''1\<newline>2\<newline>3\<newline>4\<newline>5\<newline>6\<newline>'' = [''1\<newline>'', ''2\<newline>'', ''3\<newline>'', ''4\<newline>'', ''5\<newline>'', ''6\<newline>'']
   \<and> readlines ''1\<newline>X\<newline>Y\<newline>5\<newline>6\<newline>'' = [''1\<newline>'', ''X\<newline>'', ''Y\<newline>'', ''5\<newline>'', ''6\<newline>'']
   \<and> readlines ''1\<newline>X\<newline>Y\<newline>5\<newline>6\<newline>'' ! 2 \<noteq> readlines ''1\<newline>2\<newline>3\<newline>4\<newline>5\<newline>6\<newline>'' ! 4
   \<and> take 3 (drop 2 (readlines ''1\<newline>X\<newline>Y\<newline>5\<newline>6\<newline>''))
       \<noteq> take 2 (drop 4 (readlines ''1\<newline>2\<newline>3\<newline>4\<newline>5\<newline>6\<newline>''))"
  by (simp add: run_defs six_lines_world_def)

subsection \<open>Deleting lines and inserting them again\<close>

text \<open>
  What does hold: when the removed lines are all terminated and none of them is blank,
  the \<open>insert\<close> branch splits their text back into the same lines, and inserting them
  after line \<open>s - 1\<close> gives the document back.
\<close>

lemma insert_new_lines_of_whole_lines:
  assumes "well_formed removed" and "list_all endswith_nl removed" and "[nl] \<notin> set removed"
  shows "insert_new_lines (concat removed) = removed"
proof -
  let ?t = "concat removed"
  have rl: "cut_lines ?t = removed"
    using assms(1) by (rule cut_lines_concat)
  have last_empty: "last (split_nl ?t) = []"
  proof (rule ccontr)
    assume ne: "last (split_nl ?t) \<noteq> []"
    then have "last (split_nl ?t) \<in> set (cut_lines ?t)"
      by (simp add: cut_lines_split_nl)
    then have "endswith_nl (last (split_nl ?t))"
      using assms(2) rl by (simp add: list_all_iff)
    then have "nl \<in> set (last (split_nl ?t))"
      using last_in_set [of "last (split_nl ?t)"] by (auto simp: endswith_nl_def)
    moreover have "last (split_nl ?t) \<in> set (split_nl ?t)"
      by (simp add: split_nl_not_Nil)
    ultimately show False using split_nl_pieces by blast
  qed
  then have "terminated ?t = ?t"
    by (auto simp: terminated_def last_split_nl_empty endswith_nl_def)
  then have rep: "replace_new_lines ?t = removed"
    by (simp add: replace_new_lines_cut_lines rl)
  have "[] \<notin> set (butlast (split_nl ?t))"
  proof
    assume "[] \<in> set (butlast (split_nl ?t))"
    then have "[] @ [nl] \<in> set (cut_lines ?t)"
      unfolding cut_lines_split_nl [of ?t] by force
    with rl assms(3) show False by simp
  qed
  then show ?thesis
    using rep by (simp add: insert_new_lines_eq_replace)
qed

lemma delete_then_insert_restores:
  assumes "1 \<le> s" and "s \<le> e" and "e \<le> length lines" and "well_formed lines"
    and "removed = slice lines (int s - 1) (int e)"
    and "list_all endswith_nl removed" and "[nl] \<notin> set removed"
  shows "splice_lines (splice_lines lines (int s - 1) (int e) []) (int s - 1) (int s - 1)
           (insert_new_lines (concat removed)) = lines"
proof -
  have s_le: "s \<le> length lines" using assms by simp
  have removed: "removed = take (e - (s - 1)) (drop (s - 1) lines)"
    using assms(1-3) s_le by (simp add: assms(5) slice_def clamp_index_pred clamp_index_nat)
  have "list_all is_line removed"
    using assms(4) by (auto simp: removed well_formed_def list_all_iff
        dest!: in_set_takeD in_set_dropD)
  then have "well_formed removed"
    using assms(6) by (auto simp: well_formed_def list_all_iff dest: in_set_butlastD)
  then have ins: "insert_new_lines (concat removed) = removed"
    using assms(6,7) by (rule insert_new_lines_of_whole_lines)
  have del: "splice_lines lines (int s - 1) (int e) [] = take (s - 1) lines @ drop e lines"
    using assms(1-3) by (simp add: splice_lines_valid_range)
  have len: "length (take (s - 1) lines) = s - 1" using s_le by simp
  have pos: "clamp_index (length (take (s - 1) lines @ drop e lines)) (int s - 1) = s - 1"
    using assms(1) s_le by (intro clamp_index_pred) simp_all
  have "take (e - (s - 1)) (drop (s - 1) lines) @ drop e lines = drop (s - 1) lines"
  proof -
    have "drop e lines = drop (e - (s - 1)) (drop (s - 1) lines)"
      using assms(1,2) by simp
    then show ?thesis by (simp only: append_take_drop_id)
  qed
  then have final: "take (s - 1) lines @ removed @ drop e lines = lines"
    by (simp add: removed)
  have front: "take (s - 1) (take (s - 1) lines @ drop e lines) = take (s - 1) lines"
    and rear: "drop (s - 1) (take (s - 1) lines @ drop e lines) = drop e lines"
    using len by simp_all
  show ?thesis
    unfolding del
    unfolding splice_lines_def slice_to_def slice_from_def pos ins front rear
    by (rule final)
qed

text \<open>
  Claim C4. Deleting lines \<open>[s, e]\<close> and inserting the text of these lines after line
  \<open>s - 1\<close> should give the document back. It does not when a blank line is among them:
  the file \<open>"a\n\nb\n"\<close> loses its line 2 (the text \<open>"\n"\<close>) by \<open>delete 2 2\<close>, and
  \<open>insert 1 "\n"\<close> then puts in two blank lines, so that the file ends as
  \<open>"a\n\n\nb\n"\<close>. The test \<^verbatim>\<open>new_lines.index(l) < len(new_lines)-1\<close> finds the
  first empty piece of the text at position 0 and so keeps the empty piece after the
  last terminator as well.
\<close>

theorem delete_then_insert_blank_line:
  "main [''edit_file.py'', ''notes.txt'', ''delete'', ''2'', ''2''] blank_line_world
     = (Exit 0, ''Deleted lines 2-2\<newline>'',
        blank_line_world\<lparr>files := (files blank_line_world)(''notes.txt'' \<mapsto> ''a\<newline>b\<newline>'')\<rparr>)
   \<and> concat (slice (readlines ''a\<newline>\<newline>b\<newline>'') 1 2) = ''\<newline>''
   \<and> main [''edit_file.py'', ''notes.txt'', ''insert'', ''1'', ''\<newline>'']
        (blank_line_world\<lparr>files := (files blank_line_world)(''notes.txt'' \<mapsto> ''a\<newline>b\<newline>'')\<rparr>)
     = (Exit 0, ''Inserted 2 lines after line 1\<newline>'',
        blank_line_world\<lparr>files := (files blank_line_world)(''notes.txt'' \<mapsto> ''a\<newline>\<newline>\<newline>b\<newline>'')\<rparr>)
   \<and> ''a\<newline>\<newline>\<newline>b\<newline>'' \<noteq> ''a\<newline>\<newline>b\<newline>''"
  by (simp add: run_defs blank_line_world_def)

subsection \<open>Line numbers that are not integers, or not positive\<close>




subsection \<open>Show\<close>

text \<open>
  Claim C6. The \<open>show\<close> action never changes the file: whatever the range, a run of
  \<open>show\<close> leaves the whole world as it was, and a second run from the world it leaves
  ends the same way and prints the same text.
\<close>

theorem show_never_mutates:
  assumes "3 \<le> length argv" and "argv ! 2 = ''show''"
    and "main argv w = (oc, out, w')"
  shows "w' = w \<and> main argv w' = (oc, out, w')"
  using assms
  by (auto simp: main_def show_action_def Let_def split: sum.splits if_splits)

theorem show_never_mutates_witness:
  "main [''edit_file.py'', ''notes.txt'', ''show'', ''2'', ''3''] example_world
     = (Exit 0, ''   2: two\<newline>   3: three\<newline>'', example_world)
   \<and> main [''edit_file.py'', ''notes.txt'', ''show'', ''2'', ''3''] example_world
     = (Exit 0, ''   2: two\<newline>   3: three\<newline>'', example_world)"
proof -
  have run: "main [''edit_file.py'', ''notes.txt'', ''show'', ''2'', ''3''] example_world
     = (Exit 0, ''   2: two\<newline>   3: three\<newline>'', example_world)"
    by (simp add: run_defs example_world_def)
  show ?thesis
    using show_never_mutates [OF _ _ run] run by simp
qed

subsection \<open>Append\<close>

text \<open>
  Claim C7. The \<open>append\<close> action writes the supplied text, as it is, at the end of the
  file: when the file holds \<open>old\<close> and the text is \<open>new_content\<close> (the fourth argument,
  or else all of standard input), the file holds \<open>old @ new_content\<close> afterwards. The
  text is not split into lines, the file is not read, and no argument is taken as a line
  number, so no range is checked. (The write is assumed to fit under the size limit.)
\<close>

theorem append_writes_verbatim:
  assumes "3 \<le> length argv" and "argv ! 2 = ''append''"
    and "files w (argv ! 1) = Some old"
    and "new_content = (if length argv > 3 then argv ! 3 else stdin w)"
    and "within_limit w (length old + length new_content)"
  shows "main argv w =
     (Exit 0, ''Appended content to '' @ argv ! 1 @ [nl],
      (if length argv > 3 then w else w\<lparr>stdin := []\<rparr>)
        \<lparr>files := (files w)(argv ! 1 \<mapsto> old @ new_content)\<rparr>)"
  using assms append_action_ok [of w argv old new_content]
  by (simp add: main_dispatch)

theorem append_writes_verbatim_witness:
  "main [''edit_file.py'', ''notes.txt'', ''append'', ''four''] example_world =
     (Exit 0, ''Appended content to notes.txt\<newline>'',
      example_world\<lparr>files :=
        (files example_world)(''notes.txt'' \<mapsto> ''one\<newline>two\<newline>three\<newline>four'')\<rparr>)"
  using append_writes_verbatim
    [of "[''edit_file.py'', ''notes.txt'', ''append'', ''four'']" example_world
        "''one\<newline>two\<newline>three\<newline>''" "''four''"]
  by (simp add: example_world_def within_limit_def nl_def)

text \<open>
  Where there is no file, \<open>append\<close> creates one with the text if the path allows it, and
  fails without a trace otherwise.
\<close>

lemma append_creates_file:
  assumes "3 \<le> length argv" and "argv ! 2 = ''append''"
    and "files w (argv ! 1) = None" and "vacant w (argv ! 1) = Can_create"
    and "new_content = (if length argv > 3 then argv ! 3 else stdin w)"
    and "within_limit w (length new_content)"
  shows "main argv w =
     (Exit 0, ''Appended content to '' @ argv ! 1 @ [nl],
      (if length argv > 3 then w else w\<lparr>stdin := []\<rparr>)
        \<lparr>files := (files w)(argv ! 1 \<mapsto> new_content)\<rparr>)"
  using assms
  by (auto simp: main_dispatch append_action_def append_file_def open_for_writing_def
      stdin_read_def within_limit_def store_within_limit split: option.splits)

lemma append_cannot_open:
  assumes "3 < length argv" and "argv ! 2 = ''append''"
    and "files w (argv ! 1) = None" and "vacant w (argv ! 1) \<noteq> Can_create"
  shows "main argv w =
     (Uncaught (if vacant w (argv ! 1) = Is_directory then IsADirectoryError (argv ! 1)
                else FileNotFoundError (argv ! 1)), [], w)"
  using assms
  by (auto simp: main_dispatch append_action_def append_file_def open_for_writing_def
      split: vacant.splits)

subsection \<open>Runs that fail\<close>

lemma replace_action_failure:
  assumes "replace_action argv w = (Uncaught e, out, w')" and "e \<noteq> OSError"
  shows "files w' = files w \<and> out = []"
  using assms
  by (auto simp: replace_action_def read_file_def write_file_def open_for_writing_def
      stdin_read_def Let_def
      split: sum.splits prod.splits if_splits option.splits vacant.splits)

lemma insert_action_failure:
  assumes "insert_action argv w = (Uncaught e, out, w')" and "e \<noteq> OSError"
  shows "files w' = files w \<and> out = []"
  using assms
  by (auto simp: insert_action_def read_file_def write_file_def open_for_writing_def
      stdin_read_def Let_def
      split: sum.splits prod.splits if_splits option.splits vacant.splits)

lemma delete_action_failure:
  assumes "delete_action argv w = (Uncaught e, out, w')" and "e \<noteq> OSError"
  shows "files w' = files w \<and> out = []"
  using assms
  by (auto simp: delete_action_def read_file_def write_file_def open_for_writing_def
      Let_def
      split: sum.splits prod.splits if_splits option.splits vacant.splits)

lemma append_action_failure:
  assumes "append_action argv w = (Uncaught e, out, w')" and "e \<noteq> OSError"
  shows "files w' = files w \<and> out = []"
  using assms
  by (auto simp: append_action_def append_file_def open_for_writing_def stdin_read_def
      split: sum.splits prod.splits if_splits option.splits vacant.splits)

lemma show_action_failure:
  assumes "show_action argv w = (Uncaught e, out, w')"
  shows "files w' = files w \<and> out = []"
  using assms
  by (auto simp: show_action_def Let_def split: sum.splits if_splits)

text \<open>
  Claim C9, as the code has it. When a run fails before its write, that is with any
  exception other than the \<open>OSError\<close> of the write itself (a missing argument, a line
  number that is not an integer, a file that does not exist), no file has changed and
  nothing was printed.
\<close>

theorem failure_before_write_keeps_files:
  assumes "main argv w = (Uncaught e, out, w')" and "e \<noteq> OSError"
  shows "files w' = files w \<and> out = []"
proof -
  have "length argv \<ge> 3" using assms(1) by (auto simp: main_def split: if_splits)
  then consider "argv ! 2 = ''show''" "show_action argv w = (Uncaught e, out, w')"
    | "replace_action argv w = (Uncaught e, out, w')"
    | "insert_action argv w = (Uncaught e, out, w')"
    | "append_action argv w = (Uncaught e, out, w')"
    | "delete_action argv w = (Uncaught e, out, w')"
    using assms(1) by (auto simp: main_def Let_def split: if_splits)
  then show ?thesis
    using assms(2)
    by cases (blast dest: show_action_failure replace_action_failure insert_action_failure
        append_action_failure delete_action_failure)+
qed

theorem failure_before_write_keeps_files_witness:
  "main [''edit_file.py'', ''notes.txt'', ''delete'', ''one'', ''2''] example_world
     = (Uncaught (ValueError ''one''), [], example_world)
   \<and> ValueError ''one'' \<noteq> OSError
   \<and> files example_world = files example_world \<and> ([] :: string) = []"
proof -
  have run: "main [''edit_file.py'', ''notes.txt'', ''delete'', ''one'', ''2''] example_world
     = (Uncaught (ValueError ''one''), [], example_world)"
    by (simp add: run_defs example_world_def)
  show ?thesis
    using failure_before_write_keeps_files [OF run] run by simp
qed

text \<open>
  A write that fails leaves a part of the new content: \<^verbatim>\<open>open(filepath, 'w')\<close> has
  emptied the file by then. With room for four characters, \<open>delete 1 1\<close> fails and
  leaves \<open>"two\n"\<close> where \<open>"one\ntwo\nthree\n"\<close> was.
\<close>

theorem failed_write_truncates_counterexample:
  "fst (main [''edit_file.py'', ''notes.txt'', ''delete'', ''1'', ''1'']
          (example_world\<lparr>fsize_limit := Some 4\<rparr>)) = Uncaught OSError
   \<and> files (snd (snd (main [''edit_file.py'', ''notes.txt'', ''delete'', ''1'', ''1'']
          (example_world\<lparr>fsize_limit := Some 4\<rparr>)))) ''notes.txt'' = Some ''two\<newline>''
   \<and> files (example_world\<lparr>fsize_limit := Some 4\<rparr>) ''notes.txt'' = Some ''one\<newline>two\<newline>three\<newline>''"
  by (simp add: run_defs example_world_def)

subsection \<open>Actions that are not known\<close>

text \<open>
  Claim C10. When the program is given at least two arguments and the action is none of
  \<open>show\<close>, \<open>replace\<close>, \<open>insert\<close>, \<open>append\<close>, \<open>delete\<close>, the run is a silent no-op: nothing
  is read or printed, the world (and so the target file) is unchanged, and the exit
  status is zero.
\<close>

theorem unknown_action_is_noop:
  assumes "3 \<le> length argv"
    and "argv ! 2 \<notin> {''show'', ''replace'', ''insert'', ''append'', ''delete''}"
  shows "main argv w = (Exit 0, [], w)"
  using assms by (simp add: main_def)

theorem unknown_action_is_noop_witness:
  "3 \<le> length [''edit_file.py'', ''notes.txt'', ''rename'', ''1'', ''2'']
   \<and> [''edit_file.py'', ''notes.txt'', ''rename'', ''1'', ''2''] ! 2
       \<notin> {''show'', ''replace'', ''insert'', ''append'', ''delete''}
   \<and> main [''edit_file.py'', ''notes.txt'', ''rename'', ''1'', ''2''] example_world
       = (Exit 0, [], example_world)"
  using unknown_action_is_noop
    [of "[''edit_file.py'', ''notes.txt'', ''rename'', ''1'', ''2'']" example_world]
  by simp

subsection \<open>Exit status and report\<close>





















end
